theory Spec2Isabelle
  imports Complex_Main
begin

section \<open>Python values: errors and floating-point numbers\<close>

text \<open>
  The exceptions the modelled functions can raise. A function that can raise returns
  \<open>error + 'a\<close>, with \<open>Inl\<close> the exception that reaches the caller.
\<close>

datatype error = ValueError | KeyError | IndexError | ZeroDivisionError | TypeError | GeometryError

text \<open>
  A Python float is modelled as an exact real number or one of the two infinities
  (\<open>math.inf\<close>, \<open>-math.inf\<close>); rounding is not modelled.
\<close>

datatype xreal = NegInf | Fin real | PosInf

fun xneg :: "xreal \<Rightarrow> xreal" where
  "xneg NegInf = PosInf"
| "xneg (Fin r) = Fin (- r)"
| "xneg PosInf = NegInf"

fun xle :: "xreal \<Rightarrow> xreal \<Rightarrow> bool" where
  "xle NegInf _ = True"
| "xle _ PosInf = True"
| "xle (Fin a) (Fin b) = (a \<le> b)"
| "xle _ _ = False"

fun xless :: "xreal \<Rightarrow> xreal \<Rightarrow> bool" where
  "xless (Fin a) (Fin b) = (a < b)"
| "xless NegInf NegInf = False"
| "xless NegInf _ = True"
| "xless PosInf _ = False"
| "xless (Fin a) PosInf = True"
| "xless (Fin a) NegInf = False"

fun is_finite :: "xreal \<Rightarrow> bool" where
  "is_finite (Fin r) = True"
| "is_finite _ = False"

text \<open>
  \<open>math.log\<close>: a \<open>ValueError\<close> (math domain error) at zero, at negative numbers and
  at \<open>-inf\<close>; \<open>math.log(inf)\<close> is \<open>inf\<close>.
\<close>

fun math_log :: "xreal \<Rightarrow> error + xreal" where
  "math_log NegInf = Inl ValueError"
| "math_log PosInf = Inr PosInf"
| "math_log (Fin r) = (if r \<le> 0 then Inl ValueError else Inr (Fin (ln r)))"

text \<open>Python's \<open>a / b\<close> on floats: \<open>ZeroDivisionError\<close> when the divisor is zero.\<close>

definition truediv :: "real \<Rightarrow> real \<Rightarrow> error + real" where
  "truediv a b = (if b = 0 then Inl ZeroDivisionError else Inr (a / b))"

section \<open>The feature-likelihood lookup table\<close>

subsection \<open>The binomial test of scipy\<close>

text \<open>
  \<open>binom_sf k n p\<close> is the survival function of the binomial distribution,
  \<open>P(X > k)\<close> for \<open>X\<close> the number of successes in \<open>n\<close> trials of probability \<open>p\<close>.
\<close>

definition binom_pmf :: "nat \<Rightarrow> real \<Rightarrow> nat \<Rightarrow> real" where
  "binom_pmf n p j = real (n choose j) * p ^ j * (1 - p) ^ (n - j)"

definition binom_sf :: "int \<Rightarrow> int \<Rightarrow> real \<Rightarrow> real" where
  "binom_sf k n p = sum_list (map (binom_pmf (nat n) p) [nat (k + 1)..<Suc (nat n)])"

text \<open>
  \<open>stats.binom_test(x, n, p, 'greater')\<close>: the p-value of \<open>x\<close> or more successes
  out of \<open>n\<close> trials, \<open>binom.sf(x - 1, n, p)\<close>. It raises \<open>ValueError\<close> when
  \<open>n < x\<close> and when \<open>p\<close> is outside \<open>[0, 1]\<close>. scipy computes the tail in binary64,
  where a small positive tail underflows to \<open>0.0\<close> and a tail close to 1 rounds to
  \<open>1.0\<close>; \<open>binom_test_greater\<close> is the test with the exact tail.
\<close>

definition binom_test_greater :: "int \<Rightarrow> int \<Rightarrow> real \<Rightarrow> error + real" where
  "binom_test_greater x n p =
     (if n < x then Inl ValueError
      else if p > 1 \<or> p < 0 then Inl ValueError
      else Inr (binom_sf (x - 1) n p))"

subsection \<open>The surprise score \<open>ll\<close>\<close>

text \<open>
  The inner function \<open>ll\<close> of \<open>precompute_feature_likelihood\<close>.
  In log-surprise mode every exception of \<open>-math.log(p_value)\<close> is printed and
  raised again (\<open>except Exception as e: print(...); raise e\<close>). In the other mode a
  \<open>ZeroDivisionError\<close> of \<open>1/p_value\<close> gives \<open>math.inf\<close>. A \<open>ValueError\<close> of
  the final \<open>math.log(lh)\<close> gives \<open>-math.inf\<close>.

  \<open>ll_with\<close> is \<open>ll\<close> with the binomial test it calls as a parameter, so that what
  \<open>ll\<close> does with the p-value can be stated for whatever number of \<open>[0, 1]\<close> the test
  of scipy returns; \<open>ll\<close> itself is taken with the exact tail.
\<close>

definition surprise :: "real \<Rightarrow> bool \<Rightarrow> error + xreal" where
  "surprise p_value log_surprise =
     (if log_surprise then
        (case math_log (Fin p_value) of
           Inl e \<Rightarrow> Inl e
         | Inr l \<Rightarrow> Inr (xneg l))
      else
        (case truediv 1 p_value of
           Inl ZeroDivisionError \<Rightarrow> Inr PosInf
         | Inl e \<Rightarrow> Inl e
         | Inr q \<Rightarrow> Inr (Fin q)))"

definition ll_with ::
  "(int \<Rightarrow> int \<Rightarrow> real \<Rightarrow> error + real) \<Rightarrow> int \<Rightarrow> int \<Rightarrow> real \<Rightarrow> bool \<Rightarrow> error + xreal" where
  "ll_with binom_test s_zone n_zone p_global log_surprise =
     (case binom_test s_zone n_zone p_global of
        Inl e \<Rightarrow> Inl e
      | Inr p_value \<Rightarrow>
          (case surprise p_value log_surprise of
             Inl e \<Rightarrow> Inl e
           | Inr lh \<Rightarrow>
               (case math_log lh of
                  Inl ValueError \<Rightarrow> Inr NegInf
                | Inl e \<Rightarrow> Inl e
                | Inr v \<Rightarrow> Inr v)))"

definition ll :: "int \<Rightarrow> int \<Rightarrow> real \<Rightarrow> bool \<Rightarrow> error + xreal" where
  "ll s_zone n_zone p_global log_surprise =
     ll_with binom_test_greater s_zone n_zone p_global log_surprise"

subsection \<open>The table\<close>

text \<open>
  \<open>feat_prob\<close> is a dict of dicts, given by its items in iteration order; the table is
  a dict nested four deep: feature, category, zone size, observed count. Each loop of
  \<open>precompute_feature_likelihood\<close> is one recursive function over the keys it
  iterates, with the dict it fills as accumulator; an exception of \<open>ll\<close> ends the call.
\<close>

type_synonym count_table = "int \<rightharpoonup> xreal"
type_synonym size_table = "int \<rightharpoonup> count_table"
type_synonym cat_table = "int \<rightharpoonup> size_table"
type_synonym lookup_table = "int \<rightharpoonup> cat_table"

fun fill_counts :: "int \<Rightarrow> real \<Rightarrow> bool \<Rightarrow> int list \<Rightarrow> count_table \<Rightarrow> error + count_table" where
  "fill_counts n_zone p_global log_surprise [] d = Inr d"
| "fill_counts n_zone p_global log_surprise (s_zone # rest) d =
     (case ll s_zone n_zone p_global log_surprise of
        Inl e \<Rightarrow> Inl e
      | Inr v \<Rightarrow> fill_counts n_zone p_global log_surprise rest (d(s_zone \<mapsto> v)))"

fun fill_sizes :: "real \<Rightarrow> bool \<Rightarrow> int list \<Rightarrow> size_table \<Rightarrow> error + size_table" where
  "fill_sizes p_global log_surprise [] d = Inr d"
| "fill_sizes p_global log_surprise (n_zone # rest) d =
     (case fill_counts n_zone p_global log_surprise [0..n_zone] Map.empty of
        Inl e \<Rightarrow> Inl e
      | Inr c \<Rightarrow> fill_sizes p_global log_surprise rest (d(n_zone \<mapsto> c)))"

fun fill_cats :: "int \<Rightarrow> int \<Rightarrow> bool \<Rightarrow> (int \<times> real) list \<Rightarrow> cat_table \<Rightarrow> error + cat_table" where
  "fill_cats min_size max_size log_surprise [] d = Inr d"
| "fill_cats min_size max_size log_surprise ((cat, p_global) # rest) d =
     (if cat \<noteq> - 1 then
        (case fill_sizes p_global log_surprise [min_size..max_size] Map.empty of
           Inl e \<Rightarrow> Inl e
         | Inr t \<Rightarrow> fill_cats min_size max_size log_surprise rest (d(cat \<mapsto> t)))
      else fill_cats min_size max_size log_surprise rest d)"

fun fill_features ::
  "int \<Rightarrow> int \<Rightarrow> bool \<Rightarrow> (int \<times> (int \<times> real) list) list \<Rightarrow> lookup_table \<Rightarrow> error + lookup_table" where
  "fill_features min_size max_size log_surprise [] d = Inr d"
| "fill_features min_size max_size log_surprise ((features, categories) # rest) d =
     (case fill_cats min_size max_size log_surprise categories Map.empty of
        Inl e \<Rightarrow> Inl e
      | Inr t \<Rightarrow> fill_features min_size max_size log_surprise rest (d(features \<mapsto> t)))"

definition precompute_feature_likelihood ::
  "int \<Rightarrow> int \<Rightarrow> (int \<times> (int \<times> real) list) list \<Rightarrow> bool \<Rightarrow> error + lookup_table" where
  "precompute_feature_likelihood min_size max_size feat_prob log_surprise =
     fill_features min_size max_size log_surprise feat_prob Map.empty"

text \<open>\<open>lookup_dict[features][cat][n_zone][s_zone]\<close>, \<open>None\<close> where a key is missing.\<close>

definition entry :: "lookup_table \<Rightarrow> int \<Rightarrow> int \<Rightarrow> int \<Rightarrow> int \<Rightarrow> xreal option" where
  "entry t features cat n_zone s_zone =
     (case t features of None \<Rightarrow> None
      | Some tc \<Rightarrow> (case tc cat of None \<Rightarrow> None
        | Some tn \<Rightarrow> (case tn n_zone of None \<Rightarrow> None
          | Some ts \<Rightarrow> ts s_zone)))"

text \<open>
  The input of the second end-to-end scenario:
  \<open>feat_prob = {0: {0: 0.5, 1: 0.5}}\<close>.
\<close>

definition example_feat_prob :: "(int \<times> (int \<times> real) list) list" where
  "example_feat_prob = [(0, [(0, 1 / 2), (1, 1 / 2)])]"


section \<open>The spatial network\<close>

subsection \<open>Sites\<close>

text \<open>
  The dict \<open>sites\<close>. \<open>get_sites\<close> fills the keys \<open>locations\<close> (an array with one row
  \<open>(x, y)\<close> per site), \<open>cz\<close> and \<open>id\<close> (the sequential ids \<open>0, 1, ...\<close>, used as array
  indices); the key \<open>names\<close> is read by \<open>compute_network\<close> and not written by
  \<open>get_sites\<close>, so it may be missing.
\<close>

type_synonym point = "real \<times> real"

record sites =
  locations :: "point list"
  cz :: "int list"
  ids :: "nat list"
  names :: "string list option"

subsection \<open>The Delaunay triangulation\<close>

text \<open>
  \<open>orient a b c\<close> is twice the signed area of the triangle \<open>a b c\<close>; \<open>in_circle a b c q\<close>
  is the determinant whose sign, multiplied by the orientation, tells whether \<open>q\<close> lies
  strictly inside the circle through \<open>a\<close>, \<open>b\<close> and \<open>c\<close>.
\<close>

definition orient :: "point \<Rightarrow> point \<Rightarrow> point \<Rightarrow> real" where
  "orient a b c = (fst b - fst a) * (snd c - snd a) - (snd b - snd a) * (fst c - fst a)"

definition in_circle :: "point \<Rightarrow> point \<Rightarrow> point \<Rightarrow> point \<Rightarrow> real" where
  "in_circle a b c q =
     (let a1 = fst a - fst q; a2 = snd a - snd q;
          b1 = fst b - fst q; b2 = snd b - snd q;
          c1 = fst c - fst q; c2 = snd c - snd q
      in (a1 * a1 + a2 * a2) * (b1 * c2 - c1 * b2)
       - (b1 * b1 + b2 * b2) * (a1 * c2 - c1 * a2)
       + (c1 * c1 + c2 * c2) * (a1 * b2 - b1 * a2))"

text \<open>
  The determinant is a sum of four terms, one for each of the four sites: the squared
  length of the site multiplied by a cofactor. \<open>cofactor locs i j k l n\<close> is the
  cofactor of site \<open>n\<close> in the determinant of the triangle of the sites \<open>i\<close>, \<open>j\<close>, \<open>k\<close>
  and the site \<open>l\<close>. Where four sites lie on one circle the determinant is zero, and
  \<open>tie_break\<close> decides as the determinant would after an infinitesimal move of the sites,
  the earlier site moved the more: by the cofactor of the first site whose cofactor is
  not zero.
\<close>

definition cofactor :: "point list \<Rightarrow> nat \<Rightarrow> nat \<Rightarrow> nat \<Rightarrow> nat \<Rightarrow> nat \<Rightarrow> real" where
  "cofactor locs i j k l n =
     (let a = locs ! i; b = locs ! j; c = locs ! k; q = locs ! l
      in if n = i then orient b c q
         else if n = j then - orient a c q
         else if n = k then orient a b q
         else if n = l then - orient a b c
         else 0)"

definition tie_break :: "point list \<Rightarrow> nat \<Rightarrow> nat \<Rightarrow> nat \<Rightarrow> nat \<Rightarrow> real" where
  "tie_break locs i j k l =
     (case filter (\<lambda>v. v \<noteq> 0) (map (cofactor locs i j k l) [0..<length locs]) of
        [] \<Rightarrow> 0
      | v # _ \<Rightarrow> v)"

definition inside_circumcircle :: "point list \<Rightarrow> nat \<Rightarrow> nat \<Rightarrow> nat \<Rightarrow> nat \<Rightarrow> bool" where
  "inside_circumcircle locs i j k l =
     (let a = locs ! i; b = locs ! j; c = locs ! k; q = locs ! l;
          d = in_circle a b c q
      in 0 < orient a b c * (if d \<noteq> 0 then d else tie_break locs i j k l))"

definition delaunay_triangle :: "point list \<Rightarrow> nat \<Rightarrow> nat \<Rightarrow> nat \<Rightarrow> bool" where
  "delaunay_triangle locs i j k =
     (orient (locs ! i) (locs ! j) (locs ! k) \<noteq> 0 \<and>
      list_all (\<lambda>l. l \<in> {i, j, k} \<or> \<not> inside_circumcircle locs i j k l) [0..<length locs])"

definition delaunay_edge :: "point list \<Rightarrow> nat \<Rightarrow> nat \<Rightarrow> bool" where
  "delaunay_edge locs i j =
     (i \<noteq> j \<and> list_ex (delaunay_triangle locs i j) [0..<length locs])"

definition collinear_sites :: "point list \<Rightarrow> bool" where
  "collinear_sites locs = (\<forall>a\<in>set locs. \<forall>b\<in>set locs. \<forall>c\<in>set locs. orient a b c = 0)"

text \<open>
  Modelled from the spec: \<open>compute_delaunay\<close> of \<open>src/util.py\<close>, which is not among the
  sources. The spec: ``compute a planar Delaunay triangulation over the coordinates;
  extract its edge list and convert to a sparse adjacency representation'', and
  ``fewer than 3 non-collinear sites makes triangulation degenerate [...]
  degenerate/collinear input is a reported, non-recoverable error''. The triangulation
  is given by the empty-circumcircle property: a triangle of three sites belongs to it
  when no other site lies inside its circumcircle, a site on the circle counting as inside
  or outside by \<open>tie_break\<close> (so that of the two diagonals of a rectangle one is an edge,
  and no two edges cross), and two sites are adjacent when they are corners of one such
  triangle. The result is the adjacency matrix, one row per site, with entry 1 for
  adjacent sites and 0 elsewhere.
\<close>

definition compute_delaunay :: "point list \<Rightarrow> error + int list list" where
  "compute_delaunay locs =
     (if collinear_sites locs then Inl GeometryError
      else Inr (map (\<lambda>i. map (\<lambda>j. if delaunay_edge locs i j then 1 else 0) [0..<length locs])
                 [0..<length locs]))"

text \<open>
  Modelled from the spec: \<open>compute_distance\<close> of \<open>src/util.py\<close>, which is not among the
  sources; the spec knows Euclidean distances only. \<open>compute_network\<close> calls it on two
  rows of its integer array \<open>edges\<close>.
\<close>

definition compute_distance :: "nat \<times> nat \<Rightarrow> nat \<times> nat \<Rightarrow> real" where
  "compute_distance a b =
     sqrt ((real (fst b) - real (fst a))\<^sup>2 + (real (snd b) - real (snd a))\<^sup>2)"

subsection \<open>Arrays of numpy and scipy\<close>

text \<open>
  A matrix is the list of its rows. \<open>nonzero\<close> lists the positions of the entries that
  are not zero, row by row, as \<open>M.nonzero()\<close> and \<open>M.toarray().nonzero()\<close> do.
\<close>

definition nonzero :: "'a::zero list list \<Rightarrow> (nat \<times> nat) list" where
  "nonzero M =
     concat (map (\<lambda>i. map (\<lambda>j. (i, j)) (filter (\<lambda>j. M ! i ! j \<noteq> 0) [0..<length (M ! i)]))
       [0..<length M])"



text \<open>
  A numpy result that can be \<open>nan\<close>. \<open>np.cov\<close> of fewer than two observations is all
  \<open>nan\<close>. \<open>np.mean\<close> is taken of \<open>distances\<close>, the entries that the indices
  \<open>mst.nonzero()\<close> select of the sparse matrix \<open>mst.tocsr()\<close>: the mean of these
  entries, and \<open>0.0\<close> when the selection is empty.
\<close>

datatype 'a np_result = NaN | Num 'a




subsection \<open>\<open>compute_network\<close>\<close>

text \<open>
  The igraph graph is kept as its vertices and its weighted edges. In the loop over
  \<open>edges\<close> the code indexes the array \<open>edges\<close> itself with the two vertex numbers of
  an edge (\<open>edges[e[0]]\<close>, \<open>edges[e[1]]\<close>), an \<open>IndexError\<close> when a vertex number is
  not a row of \<open>edges\<close>.
\<close>

record graph =
  g_vertices :: "nat list"
  g_edges :: "(nat \<times> nat \<times> real) list"

record network =
  net_vertices :: "nat list"
  net_edges :: "(nat \<times> nat) list"
  net_locations :: "point list"
  net_names :: "string list"
  net_adj_mat :: "int list list"
  net_n :: nat
  net_m :: nat
  net_graph :: graph
  net_dist_mat :: "real list list"

fun add_edges :: "(nat \<times> nat) list \<Rightarrow> (nat \<times> nat) list \<Rightarrow> graph \<Rightarrow> error + graph" where
  "add_edges edges [] g = Inr g"
| "add_edges edges (e # es) g =
     (if fst e < length edges \<and> snd e < length edges then
        (let dist = compute_distance (edges ! fst e) (edges ! snd e)
         in add_edges edges es (g\<lparr>g_edges := g_edges g @ [(fst e, snd e, dist)]\<rparr>))
      else Inl IndexError)"

text \<open>
  \<open>np.linalg.norm(sites['locations'][:, None] - sites['locations'], axis=-1)\<close>: the
  matrix of the Euclidean distances of all pairs of sites.
\<close>

definition norm_rows :: "point list \<Rightarrow> real list list" where
  "norm_rows locs =
     map (\<lambda>a. map (\<lambda>b. sqrt ((fst a - fst b)\<^sup>2 + (snd a - snd b)\<^sup>2)) locs) locs"

definition compute_network :: "sites \<Rightarrow> error + network" where
  "compute_network s =
     (let vertices = ids s in
      case compute_delaunay (locations s) of
        Inl e \<Rightarrow> Inl e
      | Inr delaunay \<Rightarrow>
          (let edges = nonzero delaunay;
               adj_mat = delaunay
           in case add_edges edges edges \<lparr>g_vertices = vertices, g_edges = []\<rparr> of
                Inl e \<Rightarrow> Inl e
              | Inr g \<Rightarrow>
                  (let dist_mat = norm_rows (locations s)
                   in case names s of
                        None \<Rightarrow> Inl KeyError
                      | Some nms \<Rightarrow>
                          Inr \<lparr>net_vertices = vertices, net_edges = edges,
                               net_locations = locations s, net_names = nms,
                               net_adj_mat = adj_mat, net_n = length vertices,
                               net_m = length edges, net_graph = g,
                               net_dist_mat = dist_mat\<rparr>)))"

subsection \<open>\<open>estimate_geo_prior_parameters\<close>\<close>



subsection \<open>The minimum spanning tree, as the spec words it\<close>









text \<open>Three sites, the corners of a right triangle with sides 3, 4 and 5.\<close>

definition triangle_sites :: sites where
  "triangle_sites =
     \<lparr>locations = [(0, 0), (3, 0), (0, 4)], cz = [0, 0, 0], ids = [0, 1, 2],
      names = Some [''a'', ''b'', ''c'']\<rparr>"

subsection \<open>Names for the entries of the two matrices\<close>

text \<open>
  \<open>adjacency locs i j\<close> is the entry of the adjacency matrix of \<open>compute_delaunay\<close> at
  row \<open>i\<close> and column \<open>j\<close>, and \<open>euclid locs i j\<close> the Euclidean distance of the sites
  \<open>i\<close> and \<open>j\<close>, the entry of the distance matrix there.
\<close>

definition adjacency :: "point list \<Rightarrow> nat \<Rightarrow> nat \<Rightarrow> int" where
  "adjacency locs i j = (if delaunay_edge locs i j then 1 else 0)"

definition euclid :: "point list \<Rightarrow> nat \<Rightarrow> nat \<Rightarrow> real" where
  "euclid locs i j =
     sqrt ((fst (locs ! i) - fst (locs ! j))\<^sup>2 + (snd (locs ! i) - snd (locs ! j))\<^sup>2)"

section \<open>The simulation harness\<close>

subsection \<open>The random generator of numpy\<close>

text \<open>
  The functions of the harness draw from the global generator of \<open>np.random\<close>. The
  state of the generator is the sequence of the raw numbers it will still deliver; a
  function that draws takes the state and returns the state left over. Each sampler of
  numpy turns raw numbers into values of its range, so that every result numpy can
  return is the result for some state, and a statement about all states covers all runs:
  \<open>uniform01\<close> gives a number of \<open>[0, 1)\<close>.
\<close>

type_synonym rng = "nat \<Rightarrow> real"

definition rng_next :: "rng \<Rightarrow> real \<times> rng" where
  "rng_next r = (r 0, \<lambda>i. r (Suc i))"

fun rng_take :: "nat \<Rightarrow> rng \<Rightarrow> real list \<times> rng" where
  "rng_take 0 r = ([], r)"
| "rng_take (Suc n) r =
     (case rng_next r of (x, r1) \<Rightarrow>
        (case rng_take n r1 of (xs, r2) \<Rightarrow> (x # xs, r2)))"

definition uniform01 :: "real \<Rightarrow> real" where
  "uniform01 x = frac x"

text \<open>\<open>np.random.random(dims)\<close>: one uniform number for each position of the shape.\<close>

definition np_random_random :: "nat list \<Rightarrow> rng \<Rightarrow> real list \<times> rng" where
  "np_random_random dims r =
     (case rng_take (prod_list dims) r of (xs, r') \<Rightarrow> (map uniform01 xs, r'))"

text \<open>
  \<open>np.random.randint(low, high, 1)\<close>: an integer of \<open>[low, high)\<close>; \<open>ValueError\<close>
  when \<open>low >= high\<close>.
\<close>

definition np_random_randint :: "int \<Rightarrow> int \<Rightarrow> rng \<Rightarrow> error + int \<times> rng" where
  "np_random_randint low high r =
     (if low \<ge> high then Inl ValueError
      else (case rng_next r of (x, r') \<Rightarrow>
              Inr (low + \<lfloor>uniform01 x * real_of_int (high - low)\<rfloor>, r')))"

text \<open>
  \<open>np.random.choice(a, size=k, replace=False)\<close> for a list \<open>a\<close> of site ids: \<open>k\<close>
  entries of \<open>a\<close> at \<open>k\<close> different positions, drawn one after the other from what
  remains. \<open>ValueError\<close> for a negative size, for a sample larger than \<open>a\<close>, and for an
  empty \<open>a\<close> unless no sample is taken. The result is an array of the type of
  \<open>np.array(a)\<close>: of integers when \<open>a\<close> holds site ids, and of floats when \<open>a\<close> is the
  empty list; the sample is then empty.
\<close>

datatype id_array = IntArray "nat list" | FloatArray

fun members :: "id_array \<Rightarrow> nat list" where
  "members (IntArray f) = f"
| "members FloatArray = []"

fun pick :: "nat \<Rightarrow> 'a list \<Rightarrow> rng \<Rightarrow> 'a list \<times> rng" where
  "pick 0 a r = ([], r)"
| "pick (Suc k) a r =
     (case rng_next r of (x, r1) \<Rightarrow>
        (let i = nat \<lfloor>uniform01 x * real (length a)\<rfloor>
         in case pick k (take i a @ drop (Suc i) a) r1 of
              (rest, r2) \<Rightarrow> (a ! i # rest, r2)))"

definition np_random_choice :: "nat list \<Rightarrow> int \<Rightarrow> rng \<Rightarrow> error + id_array \<times> rng" where
  "np_random_choice a sz r =
     (if sz < 0 then Inl ValueError
      else if a = [] \<and> sz \<noteq> 0 then Inl ValueError
      else if int (length a) < sz then Inl ValueError
      else if a = [] then Inr (FloatArray, r)
      else (case pick (nat sz) a r of (f, r') \<Rightarrow> Inr (IntArray f, r')))"

text \<open>
  \<open>np.cumsum\<close> of one row, and \<open>np.argmax\<close> of a row of booleans: the position of
  the first \<open>True\<close>, and 0 when there is none.
\<close>

definition cumsum :: "real list \<Rightarrow> real list" where
  "cumsum xs = map (\<lambda>i. sum_list (take (Suc i) xs)) [0..<length xs]"

definition argmax_bool :: "bool list \<Rightarrow> nat" where
  "argmax_bool bs = (if True \<in> set bs then length (takeWhile Not bs) else 0)"

text \<open>
  \<open>np.random.choice(a, size=n, p=p)\<close>: \<open>n\<close> entries of \<open>a\<close>, each at the position
  where the cumulated probabilities first exceed a uniform number
  (\<open>cdf.searchsorted(u, side='right')\<close>), the cumulated probabilities being divided
  by the last of them (\<open>cdf /= cdf[-1]\<close>). \<open>ValueError\<close> for an empty \<open>a\<close>, for \<open>p\<close> of
  another length, with a negative entry or with a sum further from 1 than
  \<open>sqrt(eps) = 2 ** -26\<close>, and for a negative size.
\<close>

definition searchsorted_right :: "real list \<Rightarrow> real \<Rightarrow> nat" where
  "searchsorted_right cdf u = length (takeWhile (\<lambda>c. c \<le> u) cdf)"

definition np_random_choice_p ::
  "'a list \<Rightarrow> int \<Rightarrow> real list \<Rightarrow> rng \<Rightarrow> error + 'a list \<times> rng" where
  "np_random_choice_p a sz p r =
     (if a = [] then Inl ValueError
      else if length p \<noteq> length a then Inl ValueError
      else if list_ex (\<lambda>x. x < 0) p then Inl ValueError
      else if \<bar>sum_list p - 1\<bar> > 1 / 2 ^ 26 then Inl ValueError
      else if sz < 0 then Inl ValueError
      else (case np_random_random [nat sz] r of
              (us, r') \<Rightarrow>
                (let cdf = map (\<lambda>c. c / last (cumsum p)) (cumsum p)
                 in Inr (map (\<lambda>u. a ! searchsorted_right cdf u) us, r'))))"

subsection \<open>Floats\<close>

text \<open>
  A float of numpy is \<open>nan\<close>, an infinity or a finite number. The operations follow
  IEEE 754 wherever an operand is \<open>nan\<close>, infinite or zero: \<open>inf - inf\<close> and \<open>0 * inf\<close> are
  \<open>nan\<close>, \<open>1 / 0\<close> is \<open>inf\<close> (a division of C, which does not raise), and \<open>nan\<close> is
  passed on. A finite result is the exact one: rounding, the overflow of a finite result
  and the sign of zero are left out.
\<close>

type_synonym double = "xreal np_result"

fun dadd :: "double \<Rightarrow> double \<Rightarrow> double" where
  "dadd NaN y = NaN"
| "dadd x NaN = NaN"
| "dadd (Num (Fin a)) (Num (Fin b)) = Num (Fin (a + b))"
| "dadd (Num PosInf) (Num NegInf) = NaN"
| "dadd (Num NegInf) (Num PosInf) = NaN"
| "dadd (Num (Fin a)) (Num y) = Num y"
| "dadd (Num x) (Num y) = Num x"

fun dmul :: "double \<Rightarrow> double \<Rightarrow> double" where
  "dmul NaN y = NaN"
| "dmul x NaN = NaN"
| "dmul (Num (Fin a)) (Num (Fin b)) = Num (Fin (a * b))"
| "dmul (Num (Fin a)) (Num y) =
     (if a = 0 then NaN else if 0 < a then Num y else Num (xneg y))"
| "dmul (Num x) (Num (Fin b)) =
     (if b = 0 then NaN else if 0 < b then Num x else Num (xneg x))"
| "dmul (Num x) (Num y) = (if x = y then Num PosInf else Num NegInf)"

fun dinv :: "double \<Rightarrow> double" where
  "dinv NaN = NaN"
| "dinv (Num (Fin a)) = (if a = 0 then Num PosInf else Num (Fin (1 / a)))"
| "dinv (Num x) = Num (Fin 0)"

text \<open>\<open>np.less_equal(x, 0)\<close>, which is false of \<open>nan\<close>.\<close>

fun less_equal_zero :: "double \<Rightarrow> bool" where
  "less_equal_zero NaN = False"
| "less_equal_zero (Num (Fin a)) = (a \<le> 0)"
| "less_equal_zero (Num NegInf) = True"
| "less_equal_zero (Num PosInf) = False"

text \<open>
  A concentration or an intensity that a caller passes is a float or \<open>None\<close>. When
  numpy makes an array of floats from a list, \<open>None\<close> becomes \<open>nan\<close>, without an error.
\<close>

fun as_double :: "double option \<Rightarrow> double" where
  "as_double None = NaN"
| "as_double (Some x) = x"

text \<open>\<open>np.sum\<close> of a row, and ``the row sums to 1 within tolerance 1e-9''.\<close>

definition np_sum :: "double list \<Rightarrow> double" where
  "np_sum xs = foldl dadd (Num (Fin 0)) xs"

definition sums_to_one :: "double list \<Rightarrow> bool" where
  "sums_to_one row =
     (case np_sum row of
        NaN \<Rightarrow> False
      | Num NegInf \<Rightarrow> False
      | Num PosInf \<Rightarrow> False
      | Num (Fin t) \<Rightarrow> \<bar>t - 1\<bar> \<le> 1 / 10 ^ 9)"

subsection \<open>\<open>np.random.dirichlet\<close>\<close>

text \<open>
  The gamma sampler that \<open>np.random.dirichlet\<close> calls, \<open>legacy_standard_gamma\<close>, with
  the shape as its first argument. For a shape of at most 1 it returns
  \<open>pow(U, 1/shape)\<close> or the like (\<open>-log(1 - U)\<close> at shape 1), which is \<open>0.0\<close> when the power
  underflows, as it does for a small shape at about every second draw: the variate is
  any finite number that is not negative. For a larger shape it is positive. The shape
  \<open>nan\<close> fails every comparison of the sampler and comes out as \<open>nan\<close>, the shape \<open>inf\<close> as
  \<open>inf\<close>. (\<open>np.random.dirichlet\<close> calls the sampler with no shape that is zero or
  negative.)
\<close>

fun gamma_variate :: "double \<Rightarrow> real \<Rightarrow> double" where
  "gamma_variate NaN x = NaN"
| "gamma_variate (Num (Fin a)) x = (if a \<le> 1 then Num (Fin (max 0 x)) else Num (Fin (exp x)))"
| "gamma_variate (Num PosInf) x = Num PosInf"
| "gamma_variate (Num NegInf) x = NaN"

text \<open>
  \<open>np.random.dirichlet(alpha, size)\<close>: \<open>size\<close> rows, each of one gamma variate for
  each entry of \<open>alpha\<close>, multiplied by the inverse of their sum
  (\<open>acc = acc + val[j]\<close> from \<open>0.0\<close>, \<open>invacc = 1/acc\<close>, \<open>val[j] * invacc\<close>). When all
  variates of a row are \<open>0.0\<close> the sum is \<open>0.0\<close>, its inverse is \<open>inf\<close>, and every entry of
  the row is \<open>0.0 * inf = nan\<close>. \<open>ValueError\<close> when an entry of \<open>alpha\<close> is
  \<open>less_equal\<close> 0, which \<open>nan\<close> is not, and for a negative size.
\<close>

definition dirichlet_row :: "double list \<Rightarrow> rng \<Rightarrow> double list \<times> rng" where
  "dirichlet_row alpha_arr r =
     (case rng_take (length alpha_arr) r of (xs, r') \<Rightarrow>
        (let val = map2 gamma_variate alpha_arr xs;
             acc = foldl dadd (Num (Fin 0)) val;
             invacc = dinv acc
         in (map (\<lambda>v. dmul v invacc) val, r')))"

fun dirichlet_rows :: "double list \<Rightarrow> nat \<Rightarrow> rng \<Rightarrow> double list list \<times> rng" where
  "dirichlet_rows alpha_arr 0 r = ([], r)"
| "dirichlet_rows alpha_arr (Suc n) r =
     (case dirichlet_row alpha_arr r of (row, r1) \<Rightarrow>
        (case dirichlet_rows alpha_arr n r1 of (rows, r2) \<Rightarrow> (row # rows, r2)))"

definition np_random_dirichlet ::
  "double option list \<Rightarrow> int \<Rightarrow> rng \<Rightarrow> error + double list list \<times> rng" where
  "np_random_dirichlet alpha sz r =
     (let alpha_arr = map as_double alpha in
      if list_ex less_equal_zero alpha_arr then Inl ValueError
      else if sz < 0 then Inl ValueError
      else Inr (dirichlet_rows alpha_arr (nat sz) r))"

subsection \<open>\<open>simulate_weights\<close>\<close>

definition simulate_weights ::
  "double option \<Rightarrow> double option \<Rightarrow> double option \<Rightarrow> bool \<Rightarrow> int \<Rightarrow> rng \<Rightarrow>
     error + double list list \<times> rng" where
  "simulate_weights f_global f_contact f_inheritance inheritance n_features r =
     (let alpha_sim = (if inheritance then [f_global, f_contact, f_inheritance]
                       else [f_global, f_contact])
      in np_random_dirichlet alpha_sim n_features r)"

subsection \<open>\<open>simulate_families\<close>\<close>

text \<open>
  The loop over \<open>range(n_families)\<close>: the size of the family is drawn, then its members
  among the sites still free, which are then removed from \<open>sites\<close>. The result lists
  the values of \<open>sites_in_family\<close> in the order of their keys.
\<close>

fun draw_families :: "nat \<Rightarrow> int \<Rightarrow> int \<Rightarrow> nat list \<Rightarrow> rng \<Rightarrow> error + id_array list \<times> rng" where
  "draw_families 0 min_family_size max_family_size sites r = Inr ([], r)"
| "draw_families (Suc nf) min_family_size max_family_size sites r =
     (case np_random_randint min_family_size max_family_size r of
        Inl e \<Rightarrow> Inl e
      | Inr (f_size, r1) \<Rightarrow>
          (case np_random_choice sites f_size r1 of
             Inl e \<Rightarrow> Inl e
           | Inr (f, r2) \<Rightarrow>
               (case draw_families nf min_family_size max_family_size
                       (filter (\<lambda>s. s \<notin> set (members f)) sites) r2 of
                  Inl e \<Rightarrow> Inl e
                | Inr (fs, r3) \<Rightarrow> Inr (f # fs, r3))))"

text \<open>
  \<open>families[k, z_id] = 1\<close> on a row of \<open>False\<close>: the columns listed in \<open>z_id\<close> become
  \<open>True\<close>; \<open>IndexError\<close> when a site id is not a column, and when \<open>z_id\<close> is an array
  of floats, which numpy refuses as an index even when it is empty.
\<close>

fun set_columns :: "nat list \<Rightarrow> bool list \<Rightarrow> error + bool list" where
  "set_columns [] row = Inr row"
| "set_columns (j # js) row =
     (if j < length row then set_columns js (row[j := True]) else Inl IndexError)"

fun set_index :: "id_array \<Rightarrow> bool list \<Rightarrow> error + bool list" where
  "set_index (IntArray js) row = set_columns js row"
| "set_index FloatArray row = Inl IndexError"

fun assign_membership :: "id_array list \<Rightarrow> nat \<Rightarrow> error + bool list list" where
  "assign_membership [] n_sites = Inr []"
| "assign_membership (z_id # rest) n_sites =
     (case set_index z_id (replicate n_sites False) of
        Inl e \<Rightarrow> Inl e
      | Inr row \<Rightarrow>
          (case assign_membership rest n_sites of
             Inl e \<Rightarrow> Inl e
           | Inr rows \<Rightarrow> Inr (row # rows)))"

text \<open>
  A negative \<open>n_families\<close> leaves the loop empty and makes
  \<open>np.zeros((n_families, n_sites), bool)\<close> raise \<open>ValueError\<close>.
\<close>

definition simulate_families ::
  "sites \<Rightarrow> int \<Rightarrow> int \<Rightarrow> int \<Rightarrow> rng \<Rightarrow> error + bool list list \<times> rng" where
  "simulate_families s n_families max_family_size min_family_size r =
     (let sites = ids s; n_sites = length sites in
      case draw_families (nat n_families) min_family_size max_family_size sites r of
        Inl e \<Rightarrow> Inl e
      | Inr (sites_in_family, r') \<Rightarrow>
          if n_families < 0 then Inl ValueError
          else (case assign_membership sites_in_family n_sites of
                  Inl e \<Rightarrow> Inl e
                | Inr families \<Rightarrow> Inr (families, r')))"

subsection \<open>\<open>sample_categorical\<close>\<close>

text \<open>
  An array of numpy is its shape and its entries in row-major order. The rows along the
  last axis of an array are the consecutive blocks of \<open>n_categories\<close> entries.
\<close>

record 'a ndarray =
  shape :: "nat list"
  entries :: "'a list"

definition rows_of :: "nat \<Rightarrow> nat \<Rightarrow> 'a list \<Rightarrow> 'a list list" where
  "rows_of n_rows n_categories xs =
     map (\<lambda>k. take n_categories (drop (k * n_categories) xs)) [0..<n_rows]"

text \<open>
  The unpacking \<open>*output_dims, n_categories = p.shape\<close> raises \<open>ValueError\<close> for an
  array without axes, and \<open>np.argmax\<close> raises \<open>ValueError\<close> along an axis of length 0.
\<close>

definition sample_categorical :: "real ndarray \<Rightarrow> rng \<Rightarrow> error + int ndarray \<times> rng" where
  "sample_categorical p r =
     (if shape p = [] then Inl ValueError
      else
        (let output_dims = butlast (shape p); n_categories = last (shape p);
             cdf = map cumsum (rows_of (prod_list output_dims) n_categories (entries p))
         in case np_random_random output_dims r of
              (z, r') \<Rightarrow>
                if n_categories = 0 then Inl ValueError
                else Inr (\<lparr>shape = output_dims,
                           entries = map2 (\<lambda>zk row. int (argmax_bool (map (\<lambda>c. zk < c) row)))
                                       z cdf\<rparr>,
                          r')))"

subsection \<open>\<open>simulate_assignment_probabilities\<close>\<close>

text \<open>
  \<open>row[range(cat_f)] = vals\<close>: the first entries of a row are overwritten by the one
  row that \<open>np.random.dirichlet(alpha, size=1)\<close> returns, the others are kept.
\<close>

definition set_leading :: "double list \<Rightarrow> double list list \<Rightarrow> double list" where
  "set_leading row drawn = concat drawn @ drop (length (concat drawn)) row"

text \<open>
  The inner loop of one feature \<open>f\<close>, \<open>for z in range(n_zones)\<close> in the first loop
  over the features and \<open>for fam in range(n_families)\<close> in the second: one row is
  drawn for each zone (for each family) and written at the place of the feature.
  \<open>[intensity] * cat_f\<close> is the empty list for \<open>cat_f \<le> 0\<close>, as \<open>range(cat_f)\<close> is.
  The intensity of inheritance may be \<open>None\<close> (its default).
\<close>

fun inner_loop ::
  "double option \<Rightarrow> int \<Rightarrow> nat \<Rightarrow> nat list \<Rightarrow> double list list list \<Rightarrow> rng \<Rightarrow>
     error + double list list list \<times> rng" where
  "inner_loop intensity cat_f f [] p_zones r = Inr (p_zones, r)"
| "inner_loop intensity cat_f f (z # zs) p_zones r =
     (case np_random_dirichlet (replicate (nat cat_f) intensity) 1 r of
        Inl e \<Rightarrow> Inl e
      | Inr (drawn, r1) \<Rightarrow>
          inner_loop intensity cat_f f zs
            (p_zones[z := (p_zones ! z)[f := set_leading (p_zones ! z ! f) drawn]]) r1)"

text \<open>
  The first loop \<open>for f in range(n_features)\<close>: the global row of the feature, then
  its row in every zone.
\<close>

fun feature_loop ::
  "double option \<Rightarrow> double option \<Rightarrow> int list \<Rightarrow> nat \<Rightarrow> nat list \<Rightarrow>
     double list list \<Rightarrow> double list list list \<Rightarrow> rng \<Rightarrow>
     error + (double list list \<times> double list list list) \<times> rng" where
  "feature_loop intensity_global intensity_contact n_categories n_zones [] p_global p_zones r =
     Inr ((p_global, p_zones), r)"
| "feature_loop intensity_global intensity_contact n_categories n_zones (f # fs) p_global p_zones r =
     (let cat_f = n_categories ! f in
      case np_random_dirichlet (replicate (nat cat_f) intensity_global) 1 r of
        Inl e \<Rightarrow> Inl e
      | Inr (drawn, r1) \<Rightarrow>
          (let p_global' = p_global[f := set_leading (p_global ! f) drawn] in
           case inner_loop intensity_contact cat_f f [0..<n_zones] p_zones r1 of
             Inl e \<Rightarrow> Inl e
           | Inr (p_zones', r2) \<Rightarrow>
               feature_loop intensity_global intensity_contact n_categories n_zones fs
                 p_global' p_zones' r2))"

text \<open>
  The second loop \<open>for f in range(n_features)\<close>, run when inheritance is simulated:
  the row of the feature in every family.
\<close>

fun family_loop ::
  "double option \<Rightarrow> int list \<Rightarrow> nat \<Rightarrow> nat list \<Rightarrow> double list list list \<Rightarrow> rng \<Rightarrow>
     error + double list list list \<times> rng" where
  "family_loop intensity_inheritance n_categories n_families [] p_families r =
     Inr (p_families, r)"
| "family_loop intensity_inheritance n_categories n_families (f # fs) p_families r =
     (let cat_f = n_categories ! f in
      case inner_loop intensity_inheritance cat_f f [0..<n_families] p_families r of
        Inl e \<Rightarrow> Inl e
      | Inr (p_families', r1) \<Rightarrow>
          family_loop intensity_inheritance n_categories n_families fs p_families' r1)"

text \<open>\<open>np.zeros\<close> of two and of three axes.\<close>

definition zeros2 :: "nat \<Rightarrow> nat \<Rightarrow> double list list" where
  "zeros2 a b = replicate a (replicate b (Num (Fin 0)))"

definition zeros3 :: "nat \<Rightarrow> nat \<Rightarrow> nat \<Rightarrow> double list list list" where
  "zeros3 a b c = replicate a (zeros2 b c)"

text \<open>
  \<open>p_number_categories\<close> is given by its items, the keys already converted by \<open>int\<close>.
  \<open>max(n_categories)\<close> raises \<open>ValueError\<close> on an empty array, \<open>np.zeros\<close> on a
  negative length, and \<open>len(families)\<close> raises \<open>TypeError\<close> when \<open>families\<close> is
  \<open>None\<close>, its default.
\<close>

definition simulate_assignment_probabilities ::
  "int \<Rightarrow> (int \<times> real) list \<Rightarrow> bool \<Rightarrow> bool list list \<Rightarrow> double option \<Rightarrow> double option \<Rightarrow>
     double option \<Rightarrow> bool list list option \<Rightarrow> rng \<Rightarrow>
     error + (double list list \<times> double list list list \<times> double list list list option) \<times> rng"
  where
  "simulate_assignment_probabilities n_features p_number_categories inheritance zones
       intensity_contact intensity_global intensity_inheritance families r =
     (let cat = map fst p_number_categories; p_cat = map snd p_number_categories in
      case np_random_choice_p cat n_features p_cat r of
        Inl e \<Rightarrow> Inl e
      | Inr (n_categories, r1) \<Rightarrow>
          (let n_features' = length n_categories in
           if n_categories = [] then Inl ValueError
           else
             (let max_categories = Max (set n_categories); n_zones = length zones in
              if max_categories < 0 then Inl ValueError
              else
                (let p_global = zeros2 n_features' (nat max_categories);
                     p_zones = zeros3 n_zones n_features' (nat max_categories)
                 in case feature_loop intensity_global intensity_contact n_categories n_zones
                           [0..<n_features'] p_global p_zones r1 of
                      Inl e \<Rightarrow> Inl e
                    | Inr ((p_global', p_zones'), r2) \<Rightarrow>
                        if \<not> inheritance then Inr ((p_global', p_zones', None), r2)
                        else
                          (case families of
                             None \<Rightarrow> Inl TypeError
                           | Some fams \<Rightarrow>
                               (let n_families = length fams;
                                    p_families = zeros3 n_families n_features' (nat max_categories)
                                in case family_loop intensity_inheritance n_categories n_families
                                          [0..<n_features'] p_families r2 of
                                     Inl e \<Rightarrow> Inl e
                                   | Inr (p_families', r3) \<Rightarrow>
                                       Inr ((p_global', p_zones', Some p_families'), r3)))))))"

text \<open>
  A row for a feature with \<open>k\<close> valid categories: it sums to 1 (within 1e-9) over its
  first \<open>k\<close> entries and is zero on every entry beyond them.
\<close>

definition valid_row :: "int \<Rightarrow> double list \<Rightarrow> bool" where
  "valid_row k row =
     (sums_to_one (take (nat k) row) \<and> list_all (\<lambda>x. x = Num (Fin 0)) (drop (nat k) row))"

subsection \<open>Inputs of the examples\<close>

text \<open>Two rows of probabilities over two categories.\<close>

definition example_probabilities :: "real ndarray" where
  "example_probabilities = \<lparr>shape = [2, 2], entries = [1 / 2, 1 / 2, 1 / 4, 3 / 4]\<rparr>"

text \<open>The concentration \<open>2 ** -10\<close> and the concentration \<open>1.0\<close>.\<close>

definition small_concentration :: "double option" where
  "small_concentration = Some (Num (Fin (1 / 2 ^ 10)))"

definition unit_concentration :: "double option" where
  "unit_concentration = Some (Num (Fin 1))"

section \<open>Properties of the feature-likelihood lookup table\<close>

subsection \<open>The binomial tail\<close>

lemma binom_pmf_nonneg: "0 \<le> p \<Longrightarrow> p \<le> 1 \<Longrightarrow> 0 \<le> binom_pmf n p j"
  by (simp add: binom_pmf_def)

lemma binom_sf_sum: "binom_sf k n p = (\<Sum>j = nat (k + 1)..nat n. binom_pmf (nat n) p j)"
proof -
  have "set [nat (k + 1)..<Suc (nat n)] = {nat (k + 1)..nat n}"
    by (simp only: set_upt atLeastLessThanSuc_atLeastAtMost)
  then show ?thesis
    unfolding binom_sf_def by (simp only: sum_list_distinct_conv_sum_set distinct_upt)
qed

lemma binom_pmf_total: "(\<Sum>j = 0..n. binom_pmf n p j) = 1"
proof -
  have "(p + (1 - p)) ^ n = (\<Sum>j\<le>n. real (n choose j) * p ^ j * (1 - p) ^ (n - j))"
    by (rule binomial_ring)
  then show ?thesis by (simp add: binom_pmf_def atMost_atLeast0)
qed

lemma binom_sf_nonneg: "0 \<le> p \<Longrightarrow> p \<le> 1 \<Longrightarrow> 0 \<le> binom_sf k n p"
  unfolding binom_sf_sum by (rule sum_nonneg) (simp add: binom_pmf_nonneg)

lemma binom_sf_antimono:
  assumes "0 \<le> p" "p \<le> 1" "k \<le> k'"
  shows "binom_sf k' n p \<le> binom_sf k n p"
  unfolding binom_sf_sum
proof (rule sum_mono2)
  show "finite {nat (k + 1)..nat n}" by simp
  show "{nat (k' + 1)..nat n} \<subseteq> {nat (k + 1)..nat n}" using assms(3) by auto
  show "\<And>b. b \<in> {nat (k + 1)..nat n} - {nat (k' + 1)..nat n} \<Longrightarrow> 0 \<le> binom_pmf (nat n) p b"
    using assms by (simp add: binom_pmf_nonneg)
qed

lemma binom_sf_all: "k < 0 \<Longrightarrow> binom_sf k n p = 1"
  unfolding binom_sf_sum using binom_pmf_total[of "nat n" p]
  by simp

lemma binom_sf_le_1: "0 \<le> p \<Longrightarrow> p \<le> 1 \<Longrightarrow> binom_sf k n p \<le> 1"
  using binom_sf_antimono[of p "min k (-1)" k n] binom_sf_all[of "min k (-1)" n p] by simp


lemma binom_pmf_top: "binom_pmf n p n = p ^ n"
  by (simp add: binom_pmf_def)

lemma binom_sf_pos:
  assumes "0 < p" "p \<le> 1" "k < n"
  shows "0 < binom_sf k n p"
proof -
  have mem: "nat n \<in> {nat (k + 1)..nat n}" using assms(3) by auto
  have "binom_pmf (nat n) p (nat n) \<le> (\<Sum>j = nat (k + 1)..nat n. binom_pmf (nat n) p j)"
    by (rule member_le_sum[OF mem]) (use assms in \<open>simp_all add: binom_pmf_nonneg\<close>)
  moreover have "0 < binom_pmf (nat n) p (nat n)"
    using assms(1) by (simp add: binom_pmf_top)
  ultimately show ?thesis by (simp add: binom_sf_sum)
qed

lemma binom_sf_zero_p:
  assumes "0 \<le> k"
  shows "binom_sf k n 0 = 0"
proof -
  have "\<And>j. j \<in> {nat (k + 1)..nat n} \<Longrightarrow> binom_pmf (nat n) 0 j = 0"
    using assms by (auto simp: binom_pmf_def)
  then show ?thesis by (simp add: binom_sf_sum)
qed

lemma tail_zero_iff:
  assumes "0 \<le> s" "s \<le> n" "0 \<le> p" "p \<le> 1"
  shows "binom_sf (s - 1) n p = 0 \<longleftrightarrow> p = 0 \<and> 1 \<le> s"
proof (cases "p = 0")
  case True
  show ?thesis
  proof (cases "1 \<le> s")
    case True
    with \<open>p = 0\<close> show ?thesis by (simp add: binom_sf_zero_p)
  next
    case False
    then have "s - 1 < 0" by simp
    then have "binom_sf (s - 1) n p = 1" by (rule binom_sf_all)
    with False show ?thesis by simp
  qed
next
  case False
  then have "0 < binom_sf (s - 1) n p"
    using assms by (intro binom_sf_pos) auto
  with False show ?thesis by simp
qed

subsection \<open>The value of \<open>ll\<close>\<close>

lemma ll_with_value:
  assumes bt: "bt s n p = Inr t" and t0: "0 \<le> t" and t1: "t \<le> 1"
  shows "ll_with bt s n p log_surprise =
    (if log_surprise then
       (if t = 0 then Inl ValueError
        else if t = 1 then Inr NegInf
        else Inr (Fin (ln (- ln t))))
     else
       (if t = 0 then Inr PosInf
        else Inr (Fin (ln (1 / t)))))"
proof -
  have ln_iff: "0 \<le> ln t \<longleftrightarrow> t = 1" if "t \<noteq> 0"
    using that t0 t1 by auto
  show ?thesis
    using t0 t1 ln_iff
    by (auto simp: ll_with_def bt surprise_def truediv_def)
qed

lemma ll_value:
  assumes "0 \<le> s" "s \<le> n" "0 \<le> p" "p \<le> 1"
  shows "ll s n p log_surprise =
    (if log_surprise then
       (if binom_sf (s - 1) n p = 0 then Inl ValueError
        else if binom_sf (s - 1) n p = 1 then Inr NegInf
        else Inr (Fin (ln (- ln (binom_sf (s - 1) n p)))))
     else
       (if binom_sf (s - 1) n p = 0 then Inr PosInf
        else Inr (Fin (ln (1 / binom_sf (s - 1) n p)))))"
proof -
  define t where "t = binom_sf (s - 1) n p"
  have t0: "0 \<le> t" and t1: "t \<le> 1"
    using assms by (simp_all add: t_def binom_sf_nonneg binom_sf_le_1)
  have bt: "binom_test_greater s n p = Inr t"
    using assms by (simp add: binom_test_greater_def t_def)
  show ?thesis
    unfolding t_def[symmetric] ll_def
    by (rule ll_with_value[where bt = binom_test_greater and s = s and n = n and p = p,
          OF bt t0 t1])
qed

lemma ll_ok_iff:
  assumes "0 \<le> s" "s \<le> n" "0 \<le> p" "p \<le> 1"
  shows "(\<exists>v. ll s n p log_surprise = Inr v) \<longleftrightarrow> \<not> (log_surprise \<and> p = 0 \<and> 1 \<le> s)"
  using tail_zero_iff[OF assms] by (auto simp: ll_value[OF assms])

lemma ll_Inr_range:
  assumes "ll s n p ls = Inr v"
  shows "s \<le> n \<and> 0 \<le> p \<and> p \<le> 1"
  using assms by (auto simp: ll_def ll_with_def binom_test_greater_def split: if_splits)

lemma ll_mono:
  assumes s: "0 \<le> s" "s \<le> s'"
    and v: "ll s n p ls = Inr v" and v': "ll s' n p ls = Inr v'"
  shows "xle v v'"
proof -
  from ll_Inr_range[OF v'] have r: "s' \<le> n" "0 \<le> p" "p \<le> 1" by simp_all
  define t where "t = binom_sf (s - 1) n p"
  define t' where "t' = binom_sf (s' - 1) n p"
  have le: "t' \<le> t"
    unfolding t_def t'_def using r s by (intro binom_sf_antimono) simp_all
  have b: "0 \<le> t'" "t \<le> 1"
    using r by (simp_all add: t_def t'_def binom_sf_nonneg binom_sf_le_1)
  have e: "ll s n p ls = (if ls then
       (if t = 0 then Inl ValueError else if t = 1 then Inr NegInf else Inr (Fin (ln (- ln t))))
     else (if t = 0 then Inr PosInf else Inr (Fin (ln (1 / t)))))"
    unfolding t_def using s r by (intro ll_value) simp_all
  have e': "ll s' n p ls = (if ls then
       (if t' = 0 then Inl ValueError else if t' = 1 then Inr NegInf else Inr (Fin (ln (- ln t'))))
     else (if t' = 0 then Inr PosInf else Inr (Fin (ln (1 / t')))))"
    unfolding t'_def using s r by (intro ll_value) simp_all
  show ?thesis
  proof (cases ls)
    case True
    with v' e' have t'0: "t' \<noteq> 0" by (auto split: if_splits)
    then have pos: "0 < t'" "0 < t" using b le by simp_all
    show ?thesis
    proof (cases "t = 1")
      case True
      with v e \<open>ls\<close> show ?thesis by simp
    next
      case False
      then have lt: "t < 1" "t' < 1" using b le by simp_all
      have "ln t' \<le> ln t" using pos le by simp
      moreover have "0 < - ln t" using pos lt by simp
      ultimately have "ln (- ln t) \<le> ln (- ln t')" by simp
      moreover have "v = Fin (ln (- ln t))" using v e \<open>ls\<close> False pos by simp
      moreover have "v' = Fin (ln (- ln t'))" using v' e' \<open>ls\<close> lt pos by simp
      ultimately show ?thesis by simp
    qed
  next
    case False
    show ?thesis
    proof (cases "t' = 0")
      case True
      with v' e' \<open>\<not> ls\<close> show ?thesis by (cases v) auto
    next
      case nz: False
      then have pos: "0 < t'" "0 < t" using b le by simp_all
      have "ln (1 / t) \<le> ln (1 / t')"
        by (rule ln_mono) (use pos le in \<open>simp_all add: frac_le\<close>)
      moreover have "v = Fin (ln (1 / t))" using v e \<open>\<not> ls\<close> pos by simp
      moreover have "v' = Fin (ln (1 / t'))" using v' e' \<open>\<not> ls\<close> pos by simp
      ultimately show ?thesis by simp
    qed
  qed
qed

subsection \<open>What the loops store\<close>

lemma fill_counts_sound:
  "fill_counts n p ls ss d = Inr r \<Longrightarrow> r s = Some v \<Longrightarrow>
     d s = Some v \<or> (s \<in> set ss \<and> ll s n p ls = Inr v)"
proof (induction ss arbitrary: d)
  case Nil
  then show ?case by simp
next
  case (Cons a ss)
  from Cons.prems(1) obtain x where x: "ll a n p ls = Inr x"
    and rest: "fill_counts n p ls ss (d(a \<mapsto> x)) = Inr r"
    by (auto split: sum.splits)
  from Cons.IH[OF rest Cons.prems(2)] x show ?case
    by (auto split: if_splits)
qed

lemma fill_counts_dom:
  "fill_counts n p ls ss d = Inr r \<Longrightarrow> dom r = dom d \<union> set ss"
proof (induction ss arbitrary: d)
  case Nil
  then show ?case by simp
next
  case (Cons a ss)
  from Cons.prems obtain x where rest: "fill_counts n p ls ss (d(a \<mapsto> x)) = Inr r"
    by (auto split: sum.splits)
  from Cons.IH[OF rest] show ?case by auto
qed

lemma fill_sizes_sound:
  "fill_sizes p ls ns d = Inr r \<Longrightarrow> r n = Some c \<Longrightarrow>
     d n = Some c \<or> (n \<in> set ns \<and> fill_counts n p ls [0..n] Map.empty = Inr c)"
proof (induction ns arbitrary: d)
  case Nil
  then show ?case by simp
next
  case (Cons a ns)
  from Cons.prems(1) obtain x where x: "fill_counts a p ls [0..a] Map.empty = Inr x"
    and rest: "fill_sizes p ls ns (d(a \<mapsto> x)) = Inr r"
    by (auto split: sum.splits)
  from Cons.IH[OF rest Cons.prems(2)] x show ?case
    by (auto split: if_splits)
qed

lemma fill_sizes_dom:
  "fill_sizes p ls ns d = Inr r \<Longrightarrow> dom r = dom d \<union> set ns"
proof (induction ns arbitrary: d)
  case Nil
  then show ?case by simp
next
  case (Cons a ns)
  from Cons.prems obtain x where rest: "fill_sizes p ls ns (d(a \<mapsto> x)) = Inr r"
    by (auto split: sum.splits)
  from Cons.IH[OF rest] show ?case by auto
qed

lemma fill_cats_sound:
  "fill_cats mn mx ls cats d = Inr r \<Longrightarrow> r c = Some tn \<Longrightarrow>
     d c = Some tn \<or>
     (c \<noteq> - 1 \<and> (\<exists>p. (c, p) \<in> set cats \<and> fill_sizes p ls [mn..mx] Map.empty = Inr tn))"
proof (induction cats arbitrary: d)
  case Nil
  then show ?case by simp
next
  case (Cons a cats)
  obtain c' p' where a: "a = (c', p')" by (cases a)
  show ?case
  proof (cases "c' \<noteq> - 1")
    case True
    with Cons.prems(1) a obtain x where x: "fill_sizes p' ls [mn..mx] Map.empty = Inr x"
      and rest: "fill_cats mn mx ls cats (d(c' \<mapsto> x)) = Inr r"
      by (auto split: sum.splits)
    from Cons.IH[OF rest Cons.prems(2)] x a True show ?thesis
      by (auto split: if_splits)
  next
    case False
    with Cons.prems(1) a have rest: "fill_cats mn mx ls cats d = Inr r" by simp
    from Cons.IH[OF rest Cons.prems(2)] a show ?thesis by auto
  qed
qed

lemma fill_cats_dom:
  "fill_cats mn mx ls cats d = Inr r \<Longrightarrow>
     dom r = dom d \<union> (fst ` set cats - {- 1})"
proof (induction cats arbitrary: d)
  case Nil
  then show ?case by simp
next
  case (Cons a cats)
  obtain c' p' where a: "a = (c', p')" by (cases a)
  show ?case
  proof (cases "c' \<noteq> - 1")
    case True
    with Cons.prems a obtain x where rest: "fill_cats mn mx ls cats (d(c' \<mapsto> x)) = Inr r"
      by (auto split: sum.splits)
    have "dom (d(c' \<mapsto> x)) = insert c' (dom d)" by simp
    with Cons.IH[OF rest] have "dom r = insert c' (dom d) \<union> (fst ` set cats - {- 1})"
      by (simp only:)
    with a True show ?thesis by auto
  next
    case False
    with Cons.prems a have rest: "fill_cats mn mx ls cats d = Inr r" by simp
    from Cons.IH[OF rest] a False show ?thesis by auto
  qed
qed

lemma fill_features_sound:
  "fill_features mn mx ls fp d = Inr r \<Longrightarrow> r f = Some tc \<Longrightarrow>
     d f = Some tc \<or>
     (\<exists>cats. (f, cats) \<in> set fp \<and> fill_cats mn mx ls cats Map.empty = Inr tc)"
proof (induction fp arbitrary: d)
  case Nil
  then show ?case by simp
next
  case (Cons a fp)
  obtain f' cats' where a: "a = (f', cats')" by (cases a)
  from Cons.prems(1) a obtain x where x: "fill_cats mn mx ls cats' Map.empty = Inr x"
    and rest: "fill_features mn mx ls fp (d(f' \<mapsto> x)) = Inr r"
    by (auto split: sum.splits)
  from Cons.IH[OF rest Cons.prems(2)] x a show ?case
    by (auto split: if_splits)
qed

lemma fill_features_dom:
  "fill_features mn mx ls fp d = Inr r \<Longrightarrow> dom r = dom d \<union> fst ` set fp"
proof (induction fp arbitrary: d)
  case Nil
  then show ?case by simp
next
  case (Cons a fp)
  obtain f' cats' where a: "a = (f', cats')" by (cases a)
  from Cons.prems a obtain x where rest: "fill_features mn mx ls fp (d(f' \<mapsto> x)) = Inr r"
    by (auto split: sum.splits)
  from Cons.IH[OF rest] a show ?case by auto
qed

lemma entry_sound:
  assumes "precompute_feature_likelihood mn mx fp ls = Inr t"
    and "entry t f c n s = Some v"
  shows "\<exists>cats p. (f, cats) \<in> set fp \<and> (c, p) \<in> set cats \<and> c \<noteq> - 1 \<and>
           mn \<le> n \<and> n \<le> mx \<and> 0 \<le> s \<and> s \<le> n \<and> ll s n p ls = Inr v"
proof -
  from assms(2) obtain tc tn ts where
    t: "t f = Some tc" and tc: "tc c = Some tn" and tn: "tn n = Some ts" and ts: "ts s = Some v"
    by (auto simp: entry_def split: option.splits)
  from fill_features_sound[OF assms(1)[unfolded precompute_feature_likelihood_def] t]
  obtain cats where 1: "(f, cats) \<in> set fp" "fill_cats mn mx ls cats Map.empty = Inr tc"
    by auto
  from fill_cats_sound[OF 1(2) tc]
  obtain p where 2: "c \<noteq> - 1" "(c, p) \<in> set cats" "fill_sizes p ls [mn..mx] Map.empty = Inr tn"
    by auto
  from fill_sizes_sound[OF 2(3) tn]
  have 3: "n \<in> set [mn..mx]" "fill_counts n p ls [0..n] Map.empty = Inr ts" by auto
  from fill_counts_sound[OF 3(2) ts]
  have 4: "s \<in> set [0..n]" "ll s n p ls = Inr v" by auto
  from 1 2 3 4 show ?thesis by auto
qed

lemma count_table_sound:
  assumes "precompute_feature_likelihood mn mx fp ls = Inr t"
    and t: "t f = Some tc" and tc: "tc c = Some tn" and tn: "tn n = Some ts"
  shows "\<exists>cats p. (f, cats) \<in> set fp \<and> (c, p) \<in> set cats \<and> c \<noteq> - 1 \<and>
           mn \<le> n \<and> n \<le> mx \<and> fill_counts n p ls [0..n] Map.empty = Inr ts"
proof -
  from fill_features_sound[OF assms(1)[unfolded precompute_feature_likelihood_def] t]
  obtain cats where 1: "(f, cats) \<in> set fp" "fill_cats mn mx ls cats Map.empty = Inr tc"
    by auto
  from fill_cats_sound[OF 1(2) tc]
  obtain p where 2: "c \<noteq> - 1" "(c, p) \<in> set cats" "fill_sizes p ls [mn..mx] Map.empty = Inr tn"
    by auto
  from fill_sizes_sound[OF 2(3) tn]
  have 3: "n \<in> set [mn..mx]" "fill_counts n p ls [0..n] Map.empty = Inr ts" by auto
  from 1 2 3 show ?thesis by auto
qed

text \<open>
  Claim C3. In a table that \<open>precompute_feature_likelihood\<close> returns, for every
  feature, category and zone size, the stored score is non-decreasing in the observed
  count: an entry at a count \<open>s\<close> is at most the entry at any count \<open>s' \<ge> s\<close>.
\<close>

theorem lookup_table_monotone:
  assumes "precompute_feature_likelihood min_size max_size feat_prob log_surprise = Inr t"
    and e: "entry t f c n s = Some v" and e': "entry t f c n s' = Some v'"
    and le: "s \<le> s'"
  shows "xle v v'"
proof -
  from e obtain tc tn ts where
    p: "t f = Some tc" "tc c = Some tn" "tn n = Some ts" and ts: "ts s = Some v"
    by (auto simp: entry_def split: option.splits)
  from e' p have ts': "ts s' = Some v'" by (simp add: entry_def)
  from count_table_sound[OF assms(1) p]
  obtain p_global where fc: "fill_counts n p_global log_surprise [0..n] Map.empty = Inr ts"
    by auto
  from fill_counts_sound[OF fc ts] have 1: "0 \<le> s" "ll s n p_global log_surprise = Inr v"
    by auto
  from fill_counts_sound[OF fc ts'] have 2: "ll s' n p_global log_surprise = Inr v'"
    by auto
  from ll_mono[OF 1(1) le 1(2) 2] show ?thesis .
qed

text \<open>
  Claim C5. A table that \<open>precompute_feature_likelihood\<close> returns has an entry at
  feature \<open>f\<close>, category \<open>c\<close>, zone size \<open>n\<close> and count \<open>s\<close> exactly when \<open>f\<close> is a
  key of \<open>feat_prob\<close>, \<open>c\<close> is a key of \<open>feat_prob[f]\<close> other than the missing-value
  marker \<open>-1\<close>, \<open>min_size \<le> n \<le> max_size\<close> and \<open>0 \<le> s \<le> n\<close>. The keys of a dict are
  distinct, which is the first hypothesis.
\<close>

theorem lookup_table_keys:
  assumes d: "distinct (map fst feat_prob)"
    and ok: "precompute_feature_likelihood min_size max_size feat_prob log_surprise = Inr t"
  shows "entry t f c n s \<noteq> None \<longleftrightarrow>
     (\<exists>cats. (f, cats) \<in> set feat_prob \<and> c \<in> fst ` set cats \<and> c \<noteq> - 1 \<and>
        min_size \<le> n \<and> n \<le> max_size \<and> 0 \<le> s \<and> s \<le> n)"
proof
  assume "entry t f c n s \<noteq> None"
  then obtain v where "entry t f c n s = Some v" by auto
  from entry_sound[OF ok this] show "\<exists>cats. (f, cats) \<in> set feat_prob \<and> c \<in> fst ` set cats \<and>
      c \<noteq> - 1 \<and> min_size \<le> n \<and> n \<le> max_size \<and> 0 \<le> s \<and> s \<le> n"
    by force
next
  assume "\<exists>cats. (f, cats) \<in> set feat_prob \<and> c \<in> fst ` set cats \<and> c \<noteq> - 1 \<and>
        min_size \<le> n \<and> n \<le> max_size \<and> 0 \<le> s \<and> s \<le> n"
  then obtain cats where c: "(f, cats) \<in> set feat_prob" "c \<in> fst ` set cats" "c \<noteq> - 1"
    and n: "min_size \<le> n" "n \<le> max_size" and s: "0 \<le> s" "s \<le> n" by auto
  have ff: "fill_features min_size max_size log_surprise feat_prob Map.empty = Inr t"
    using ok by (simp add: precompute_feature_likelihood_def)
  from fill_features_dom[OF ff] c(1) have "f \<in> dom t" by force
  then obtain tc where tf: "t f = Some tc" by auto
  from fill_features_sound[OF ff tf] obtain cats' where
    c': "(f, cats') \<in> set feat_prob" "fill_cats min_size max_size log_surprise cats' Map.empty = Inr tc"
    by auto
  from d c'(1) c(1) have "cats' = cats" by (rule eq_key_imp_eq_value)
  with c' have fc: "fill_cats min_size max_size log_surprise cats Map.empty = Inr tc" by simp
  from fill_cats_dom[OF fc] c(2,3) have "c \<in> dom tc" by auto
  then obtain tn where tcc: "tc c = Some tn" by auto
  from fill_cats_sound[OF fc tcc] obtain p where
    fs: "fill_sizes p log_surprise [min_size..max_size] Map.empty = Inr tn" by auto
  from fill_sizes_dom[OF fs] n have "n \<in> dom tn" by auto
  then obtain ts where tnn: "tn n = Some ts" by auto
  from fill_sizes_sound[OF fs tnn] have fcn: "fill_counts n p log_surprise [0..n] Map.empty = Inr ts"
    by auto
  from fill_counts_dom[OF fcn] s have "s \<in> dom ts" by auto
  then obtain v where "ts s = Some v" by auto
  with tf tcc tnn show "entry t f c n s \<noteq> None" by (simp add: entry_def)
qed

subsection \<open>When the table is built\<close>

text \<open>
  The call returns a table when every probability of a non-missing category is in
  \<open>[0, 1]\<close> and, in log-surprise mode, is not zero.
\<close>

lemma fill_counts_succeeds:
  assumes "\<forall>s\<in>set ss. \<exists>v. ll s n p ls = Inr v"
  shows "\<exists>r. fill_counts n p ls ss d = Inr r"
  using assms
proof (induction ss arbitrary: d)
  case Nil
  show ?case by simp
next
  case (Cons a ss)
  from Cons.prems obtain v where v: "ll a n p ls = Inr v" by auto
  from Cons.prems have "\<forall>s\<in>set ss. \<exists>v. ll s n p ls = Inr v" by simp
  from Cons.IH[OF this] obtain r where "fill_counts n p ls ss (d(a \<mapsto> v)) = Inr r"
    by blast
  moreover have "fill_counts n p ls (a # ss) d = fill_counts n p ls ss (d(a \<mapsto> v))"
    using v by simp
  ultimately show ?case by (intro exI[of _ r]) (simp only:)
qed

lemma fill_sizes_succeeds:
  assumes "\<forall>n\<in>set ns. \<exists>c. fill_counts n p ls [0..n] Map.empty = Inr c"
  shows "\<exists>r. fill_sizes p ls ns d = Inr r"
  using assms
proof (induction ns arbitrary: d)
  case Nil
  show ?case by simp
next
  case (Cons a ns)
  from Cons.prems obtain c where c: "fill_counts a p ls [0..a] Map.empty = Inr c" by auto
  from Cons.prems have "\<forall>n\<in>set ns. \<exists>c. fill_counts n p ls [0..n] Map.empty = Inr c" by simp
  from Cons.IH[OF this] obtain r where "fill_sizes p ls ns (d(a \<mapsto> c)) = Inr r"
    by blast
  moreover have "fill_sizes p ls (a # ns) d = fill_sizes p ls ns (d(a \<mapsto> c))"
    using c by simp
  ultimately show ?case by (intro exI[of _ r]) (simp only:)
qed

lemma fill_cats_succeeds:
  assumes "\<forall>(c, p)\<in>set cats. c \<noteq> - 1 \<longrightarrow> (\<exists>r. fill_sizes p ls [mn..mx] Map.empty = Inr r)"
  shows "\<exists>r. fill_cats mn mx ls cats d = Inr r"
  using assms
proof (induction cats arbitrary: d)
  case Nil
  show ?case by simp
next
  case (Cons a cats)
  obtain c p where a: "a = (c, p)" by (cases a)
  from Cons.prems have rest:
    "\<forall>(c, p)\<in>set cats. c \<noteq> - 1 \<longrightarrow> (\<exists>r. fill_sizes p ls [mn..mx] Map.empty = Inr r)"
    by simp
  show ?case
  proof (cases "c \<noteq> - 1")
    case True
    with Cons.prems a obtain r where r: "fill_sizes p ls [mn..mx] Map.empty = Inr r" by auto
    from Cons.IH[OF rest] obtain r' where "fill_cats mn mx ls cats (d(c \<mapsto> r)) = Inr r'"
      by blast
    moreover have "fill_cats mn mx ls (a # cats) d = fill_cats mn mx ls cats (d(c \<mapsto> r))"
      using r a True by simp
    ultimately show ?thesis by (intro exI[of _ r']) (simp only:)
  next
    case False
    from Cons.IH[OF rest, of d] a False show ?thesis by simp
  qed
qed

lemma fill_features_succeeds:
  assumes "\<forall>(f, cats)\<in>set fp. \<exists>r. fill_cats mn mx ls cats Map.empty = Inr r"
  shows "\<exists>r. fill_features mn mx ls fp d = Inr r"
  using assms
proof (induction fp arbitrary: d)
  case Nil
  show ?case by simp
next
  case (Cons a fp)
  obtain f cats where a: "a = (f, cats)" by (cases a)
  from Cons.prems a obtain r where r: "fill_cats mn mx ls cats Map.empty = Inr r" by auto
  from Cons.prems have "\<forall>(f, cats)\<in>set fp. \<exists>r. fill_cats mn mx ls cats Map.empty = Inr r"
    by simp
  from Cons.IH[OF this] obtain r' where "fill_features mn mx ls fp (d(f \<mapsto> r)) = Inr r'"
    by blast
  moreover have "fill_features mn mx ls (a # fp) d = fill_features mn mx ls fp (d(f \<mapsto> r))"
    using r a by simp
  ultimately show ?case by (intro exI[of _ r']) (simp only:)
qed

lemma precompute_feature_likelihood_succeeds:
  assumes "\<forall>(f, cats)\<in>set feat_prob. \<forall>(c, p)\<in>set cats. c \<noteq> - 1 \<longrightarrow>
     0 \<le> p \<and> p \<le> 1 \<and> (log_surprise \<longrightarrow> 0 < p)"
  shows "\<exists>t. precompute_feature_likelihood min_size max_size feat_prob log_surprise = Inr t"
proof -
  have counts: "\<exists>r. fill_counts n p log_surprise [0..n] Map.empty = Inr r"
    if "0 \<le> p" "p \<le> 1" "log_surprise \<longrightarrow> 0 < p" for n p
  proof (rule fill_counts_succeeds, rule ballI)
    fix s assume "s \<in> set [0..n]"
    then have "0 \<le> s" "s \<le> n" by simp_all
    with that show "\<exists>v. ll s n p log_surprise = Inr v"
      by (auto simp: ll_ok_iff)
  qed
  have sizes: "\<exists>r. fill_sizes p log_surprise [min_size..max_size] Map.empty = Inr r"
    if "0 \<le> p" "p \<le> 1" "log_surprise \<longrightarrow> 0 < p" for p
    by (rule fill_sizes_succeeds) (use counts[OF that] in blast)
  have cats: "\<exists>r. fill_cats min_size max_size log_surprise cats Map.empty = Inr r"
    if "(f, cats) \<in> set feat_prob" for f cats
    by (rule fill_cats_succeeds) (use assms that sizes in fastforce)
  show ?thesis
    unfolding precompute_feature_likelihood_def
    by (rule fill_features_succeeds) (use cats in auto)
qed

subsection \<open>A concrete table\<close>

lemma binom_sf_half_2:
  "binom_sf (- 1) 2 (1 / 2) = 1" "binom_sf 0 2 (1 / 2) = 3 / 4" "binom_sf 1 2 (1 / 2) = 1 / 4"
  by (simp_all add: binom_sf_def binom_pmf_def upt_rec eval_nat_numeral)

lemma ll_half_2:
  "ll 0 2 (1 / 2) True = Inr NegInf"
  "ll 1 2 (1 / 2) True = Inr (Fin (ln (- ln (3 / 4))))"
  "ll 2 2 (1 / 2) True = Inr (Fin (ln (- ln (1 / 4))))"
  by (simp_all add: ll_value binom_sf_half_2)

lemma example_table:
  "\<exists>t. precompute_feature_likelihood 2 2 example_feat_prob True = Inr t \<and>
       entry t 0 0 2 0 = Some NegInf \<and>
       entry t 0 0 2 1 = Some (Fin (ln (- ln (3 / 4)))) \<and>
       entry t 0 0 2 2 = Some (Fin (ln (- ln (1 / 4)))) \<and>
       entry t 0 0 2 3 = None \<and> entry t 0 2 2 1 = None"
  by (simp add: precompute_feature_likelihood_def example_feat_prob_def ll_half_2 entry_def
      upto_rec1)

lemma ln_ln_example: "ln (- ln (3 / 4 :: real)) < ln (- ln (1 / 4))"
proof -
  have a: "ln (1 / 4 :: real) < ln (3 / 4)" by (subst ln_less_cancel_iff) simp_all
  have b: "ln (3 / 4 :: real) < 0" by (subst ln_less_zero_iff) simp_all
  from a b show ?thesis by (subst ln_less_cancel_iff) simp_all
qed

text \<open>
  Claim C4. With \<open>feat_prob = {0: {0: 0.5, 1: 0.5}}\<close>, \<open>min_size = max_size = 2\<close>
  and log-surprise mode, the call returns a table; its entry for category 0, zone size 2
  and count 2 is a finite number, strictly greater than its (finite) entry for count 1.
\<close>

theorem scenario_two:
  "\<exists>t v1 v2. precompute_feature_likelihood 2 2 [(0, [(0, 1 / 2), (1, 1 / 2)])] True = Inr t \<and>
     entry t 0 0 2 1 = Some v1 \<and> entry t 0 0 2 2 = Some v2 \<and>
     is_finite v2 \<and> xless v1 v2"
proof -
  from example_table obtain t where
    "precompute_feature_likelihood 2 2 [(0, [(0, 1 / 2), (1, 1 / 2)])] True = Inr t"
    "entry t 0 0 2 1 = Some (Fin (ln (- ln (3 / 4))))"
    "entry t 0 0 2 2 = Some (Fin (ln (- ln (1 / 4))))"
    unfolding example_feat_prob_def by blast
  moreover have "is_finite (Fin (ln (- ln (1 / 4))))" by simp
  moreover have "xless (Fin (ln (- ln (3 / 4)))) (Fin (ln (- ln (1 / 4))))"
    using ln_ln_example by simp
  ultimately show ?thesis by blast
qed

text \<open>
  Claim C2 says that the surprise score never raises to the caller. In log-surprise
  mode, with \<open>p_global = 0\<close>, \<open>n_zone = 2\<close> and \<open>s_zone = 1\<close> the tail probability is
  zero, \<open>math.log\<close> raises \<open>ValueError\<close>, and the handler prints and raises it again.
\<close>

theorem ll_raises_counterexample: "ll 1 2 0 True = Inl ValueError"
  by (simp add: ll_def ll_with_def binom_test_greater_def surprise_def binom_sf_def binom_pmf_def
      upt_rec)

text \<open>
  Claim C2, amended. Let \<open>p_value\<close> be the number that the binomial test returns, whatever
  the test is, as long as it lies in \<open>[0, 1]\<close> (so the statement holds of the tail as scipy
  computes it, underflow and rounding included). The surprise score then terminates with
  an extended real, but for one case: in log-surprise mode with \<open>p_value = 0\<close> it raises
  \<open>ValueError\<close> to its caller, where the claim has \<open>+inf\<close>. In log-surprise mode
  \<open>p_value = 1\<close> gives \<open>-inf\<close>, and in reciprocal mode \<open>p_value = 0\<close> gives \<open>+inf\<close>.
\<close>

theorem ll_outcome:
  assumes "binom_test s n p = Inr p_value" "0 \<le> p_value" "p_value \<le> 1"
  shows "(if log_surprise \<and> p_value = 0
          then ll_with binom_test s n p log_surprise = Inl ValueError
          else \<exists>v. ll_with binom_test s n p log_surprise = Inr v)
       \<and> (log_surprise \<and> p_value = 1 \<longrightarrow>
            ll_with binom_test s n p log_surprise = Inr NegInf)
       \<and> (\<not> log_surprise \<and> p_value = 0 \<longrightarrow>
            ll_with binom_test s n p log_surprise = Inr PosInf)"
  by (simp add: ll_with_value[where bt = binom_test and s = s and n = n and p = p, OF assms])

text \<open>
  The theorem at the exact test, with \<open>s = 2\<close>, \<open>n = 2\<close>, \<open>p_global = 1\<close> (tail 1) in
  log-surprise mode, where the score is \<open>-inf\<close>.
\<close>

theorem ll_outcome_witness:
  "binom_test_greater 2 2 1 = Inr 1 \<and> (0::real) \<le> 1 \<and> (1::real) \<le> 1 \<and>
   ll_with binom_test_greater 2 2 1 True = Inr NegInf"
proof -
  have bt: "binom_test_greater 2 2 1 = Inr 1"
    by (simp add: binom_test_greater_def binom_sf_def binom_pmf_def upt_rec)
  from ll_outcome[where binom_test = binom_test_greater and s = 2 and n = 2 and p = 1
      and p_value = 1 and log_surprise = True] bt
  show ?thesis by simp
qed

text \<open>Claim C3 at the table of the scenario, counts 1 and 2.\<close>

theorem lookup_table_monotone_witness:
  "\<exists>t v v'. precompute_feature_likelihood 2 2 example_feat_prob True = Inr t \<and>
     entry t 0 0 2 1 = Some v \<and> entry t 0 0 2 2 = Some v' \<and> (1::int) \<le> 2 \<and> xle v v'"
proof -
  from example_table obtain t where t:
    "precompute_feature_likelihood 2 2 example_feat_prob True = Inr t"
    "entry t 0 0 2 1 = Some (Fin (ln (- ln (3 / 4))))"
    "entry t 0 0 2 2 = Some (Fin (ln (- ln (1 / 4))))"
    by blast
  have le: "(1::int) \<le> 2" by simp
  from lookup_table_monotone[OF t(1) t(2) t(3) le] t le show ?thesis by blast
qed

text \<open>Claim C5 at the table of the scenario: count 2 is a key, count 3 is not.\<close>

theorem lookup_table_keys_witness:
  "\<exists>t. distinct (map fst example_feat_prob) \<and>
     precompute_feature_likelihood 2 2 example_feat_prob True = Inr t \<and>
     entry t 0 1 2 2 \<noteq> None \<and> entry t 0 1 2 3 = None"
proof -
  from example_table obtain t where t:
    "precompute_feature_likelihood 2 2 example_feat_prob True = Inr t" by blast
  have d: "distinct (map fst example_feat_prob)" by (simp add: example_feat_prob_def)
  have "entry t 0 1 2 2 \<noteq> None"
    unfolding lookup_table_keys[OF d t] by (simp add: example_feat_prob_def)
  moreover have "entry t 0 1 2 3 = None"
    using lookup_table_keys[OF d t, of 0 1 2 3] by (simp add: example_feat_prob_def)
  ultimately show ?thesis using d t by blast
qed

section \<open>Properties of the spatial network\<close>

subsection \<open>The network of the triangle\<close>

lemma sqrt_vals: "sqrt 9 = 3" "sqrt 16 = 4" "sqrt 25 = 5"
  by (simp_all add: real_sqrt_unique)

lemma upt3: "[0..<3] = [0, 1, 2]" by (simp add: upt_rec)

lemma tri_collinear: "\<not> collinear_sites [(0, 0), (3, 0), (0, 4)]"
  by (simp add: collinear_sites_def orient_def)

lemma tri_edges:
  "delaunay_edge [(0, 0), (3, 0), (0, 4)] i j \<longleftrightarrow> i \<noteq> j" if "i < 3" "j < 3"
proof -
  have "i \<in> {0,1,2}" "j \<in> {0,1,2}" using that by auto
  then show ?thesis
    by (auto simp add: delaunay_edge_def delaunay_triangle_def orient_def upt3)
qed

lemma tri_delaunay:
  "compute_delaunay [(0, 0), (3, 0), (0, 4)] = Inr [[0, 1, 1], [1, 0, 1], [1, 1, 0]]"
  by (simp add: compute_delaunay_def tri_collinear upt3 tri_edges)

lemma tri_nonzero:
  "nonzero [[0, 1, 1], [1, 0, 1], [1, 1, 0::int]] = [(0,1),(0,2),(1,0),(1,2),(2,0),(2,1)]"
  by (simp add: nonzero_def upt3)

lemma tri_norm_rows:
  "norm_rows [(0, 0), (3, 0), (0, 4)] = [[0, 3, 4], [3, 0, 5], [4, 5, 0]]"
  by (simp add: norm_rows_def sqrt_vals)

text \<open>
  The four corners of a rectangle lie on one circle. Of the two diagonals one is an
  edge, the one of the sites 1 and 3; the sites 0 and 2 are not adjacent.
\<close>

lemma upt4: "[0..<4] = [0, 1, 2, 3]" by (simp add: upt_rec)

lemma rect_collinear: "\<not> collinear_sites [(0, 0), (2, 0), (2, 1), (0, 1)]"
  by (simp add: collinear_sites_def orient_def)

lemma rect_delaunay:
  "compute_delaunay [(0, 0), (2, 0), (2, 1), (0, 1)] =
     Inr [[0, 1, 0, 1], [1, 0, 1, 1], [0, 1, 0, 1], [1, 1, 1, 0]]"
  by (simp add: compute_delaunay_def rect_collinear upt4 delaunay_edge_def
      delaunay_triangle_def inside_circumcircle_def tie_break_def cofactor_def in_circle_def
      orient_def Let_def)

subsection \<open>Matrices given entry by entry\<close>

lemma map_conv_upt: "map f xs = map (\<lambda>i. f (xs ! i)) [0..<length xs]"
  by (rule nth_equalityI) simp_all

lemma filter_tab:
  "filter (\<lambda>j. map g [0..<m] ! j \<noteq> 0) [0..<m] = filter (\<lambda>j. g j \<noteq> 0) [0..<m]"
  by (rule filter_cong) simp_all


lemma nonzero_tab:
  "nonzero (map (\<lambda>i. map (f i) [0..<m]) [0..<n]) =
     concat (map (\<lambda>i. map (Pair i) (filter (\<lambda>j. f i j \<noteq> 0) [0..<m])) [0..<n])"
proof -
  let ?M = "map (\<lambda>i. map (f i) [0..<m]) [0..<n]"
  have row: "?M ! i = map (f i) [0..<m]" if "i < n" for i using that by simp
  have "map (\<lambda>i. map (Pair i) (filter (\<lambda>j. ?M ! i ! j \<noteq> 0) [0..<length (?M ! i)]))
            [0..<length ?M]
      = map (\<lambda>i. map (Pair i) (filter (\<lambda>j. f i j \<noteq> 0) [0..<m])) [0..<n]"
  proof (rule map_cong)
    show "[0..<length ?M] = [0..<n]" by simp
  next
    fix i assume "i \<in> set [0..<n]"
    then have "i < n" by simp
    show "map (Pair i) (filter (\<lambda>j. ?M ! i ! j \<noteq> 0) [0..<length (?M ! i)]) =
          map (Pair i) (filter (\<lambda>j. f i j \<noteq> 0) [0..<m])"
      unfolding row[OF \<open>i < n\<close>] by (simp add: filter_tab)
  qed
  then show ?thesis unfolding nonzero_def by (rule arg_cong)
qed



lemma norm_rows_tab:
  "norm_rows locs =
     map (\<lambda>i. map (\<lambda>j. sqrt ((fst (locs ! i) - fst (locs ! j))\<^sup>2 +
                               (snd (locs ! i) - snd (locs ! j))\<^sup>2)) [0..<length locs])
       [0..<length locs]"
proof -
  have "map (\<lambda>a. map (\<lambda>b. sqrt ((fst a - fst b)\<^sup>2 + (snd a - snd b)\<^sup>2)) locs) locs
      = map (\<lambda>a. map (\<lambda>j. sqrt ((fst a - fst (locs ! j))\<^sup>2 + (snd a - snd (locs ! j))\<^sup>2))
               [0..<length locs]) locs"
    by (rule map_cong[OF refl], rule map_conv_upt)
  also have "\<dots> = map (\<lambda>i. map (\<lambda>j. sqrt ((fst (locs ! i) - fst (locs ! j))\<^sup>2 +
                               (snd (locs ! i) - snd (locs ! j))\<^sup>2)) [0..<length locs])
       [0..<length locs]"
    by (rule map_conv_upt)
  finally show ?thesis by (simp only: norm_rows_def)
qed

subsection \<open>The Delaunay edges and the distance matrix\<close>

lemma orient_swap: "orient b a c = - orient a b c"
  by (simp add: orient_def algebra_simps)

lemma in_circle_swap: "in_circle b a c q = - in_circle a b c q"
  by (simp add: in_circle_def Let_def algebra_simps)

lemma cofactor_swap:
  "i \<noteq> j \<Longrightarrow> cofactor locs j i k l n = - cofactor locs i j k l n"
  by (simp add: cofactor_def Let_def orient_def algebra_simps)

lemma first_nonzero_neg:
  fixes f :: "nat \<Rightarrow> real"
  shows "(case filter (\<lambda>v. v \<noteq> 0) (map (\<lambda>n. - f n) xs) of [] \<Rightarrow> 0 | v # _ \<Rightarrow> v) =
         - (case filter (\<lambda>v. v \<noteq> 0) (map f xs) of [] \<Rightarrow> 0 | v # _ \<Rightarrow> v)"
  by (induction xs) simp_all

lemma tie_break_swap:
  assumes "i \<noteq> j"
  shows "tie_break locs j i k l = - tie_break locs i j k l"
  unfolding tie_break_def cofactor_swap[OF assms] by (rule first_nonzero_neg)

lemma inside_circumcircle_swap:
  assumes "i \<noteq> j"
  shows "inside_circumcircle locs j i k l = inside_circumcircle locs i j k l"
  by (simp add: inside_circumcircle_def Let_def tie_break_swap[OF assms]
      orient_swap[of "locs ! j" "locs ! i"] in_circle_swap[of "locs ! j" "locs ! i"])


lemma delaunay_triangle_swap: "delaunay_triangle locs j i k = delaunay_triangle locs i j k"
proof (cases "i = j")
  case True
  then show ?thesis by simp
next
  case False
  have "{j, i, k} = {i, j, k}" by auto
  then show ?thesis
    by (simp add: delaunay_triangle_def inside_circumcircle_swap[OF False]
        orient_swap[of "locs ! j" "locs ! i"])
qed

lemma delaunay_edge_sym: "delaunay_edge locs i j = delaunay_edge locs j i"
  by (auto simp: delaunay_edge_def list_ex_iff delaunay_triangle_swap[of locs i j])


lemma compute_delaunay_Inr:
  assumes "compute_delaunay locs = Inr del"
  shows "del = map (\<lambda>i. map (adjacency locs i) [0..<length locs]) [0..<length locs]"
  using assms by (auto simp: compute_delaunay_def adjacency_def[abs_def] split: if_splits)

lemma nonzero_delaunay:
  assumes "compute_delaunay locs = Inr del"
  shows "nonzero del =
     concat (map (\<lambda>i. map (Pair i) (filter (delaunay_edge locs i) [0..<length locs]))
       [0..<length locs])"
  unfolding compute_delaunay_Inr[OF assms] nonzero_tab by (simp add: adjacency_def)

lemma set_nonzero_delaunay:
  assumes "compute_delaunay locs = Inr del"
  shows "set (nonzero del) = {(i, j). i < length locs \<and> j < length locs \<and> delaunay_edge locs i j}"
  unfolding nonzero_delaunay[OF assms] by auto

lemma compute_network_fields:
  assumes "compute_network s = Inr net"
  shows "\<exists>del. compute_delaunay (locations s) = Inr del \<and> net_edges net = nonzero del \<and>
           net_adj_mat net = del \<and> net_locations net = locations s \<and>
           net_dist_mat net = norm_rows (locations s)"
  using assms
  by (auto simp: compute_network_def Let_def split: sum.splits option.splits)

lemma norm_rows_euclid:
  "norm_rows locs = map (\<lambda>i. map (euclid locs i) [0..<length locs]) [0..<length locs]"
  unfolding norm_rows_tab euclid_def[abs_def] ..

lemma norm_rows_nth:
  "i < length locs \<Longrightarrow> j < length locs \<Longrightarrow> norm_rows locs ! i ! j = euclid locs i j"
  by (simp add: norm_rows_euclid)

lemma euclid_sym: "euclid locs i j = euclid locs j i"
  by (simp add: euclid_def power2_commute)

lemma euclid_self: "euclid locs i i = 0"
  by (simp add: euclid_def)


text \<open>
  Claim C6. For every site set on which \<open>compute_network\<close> succeeds, the distance
  matrix of the network is square, symmetric and zero on its diagonal, and the edge set
  is symmetric: with \<open>(i, j)\<close> it holds \<open>(j, i)\<close>.
\<close>

theorem compute_network_symmetric:
  assumes "compute_network s = Inr net"
  shows "length (net_dist_mat net) = length (locations s) \<and>
     (\<forall>i<length (locations s). length (net_dist_mat net ! i) = length (locations s)) \<and>
     (\<forall>i<length (locations s). \<forall>j<length (locations s).
        net_dist_mat net ! i ! j = net_dist_mat net ! j ! i) \<and>
     (\<forall>i<length (locations s). net_dist_mat net ! i ! i = 0) \<and>
     (\<forall>i j. (i, j) \<in> set (net_edges net) \<longrightarrow> (j, i) \<in> set (net_edges net))"
proof -
  from compute_network_fields[OF assms] obtain del where
    del: "compute_delaunay (locations s) = Inr del" and e: "net_edges net = nonzero del"
    and d: "net_dist_mat net = norm_rows (locations s)" by blast
  have "(j, i) \<in> set (net_edges net)" if "(i, j) \<in> set (net_edges net)" for i j
    using that delaunay_edge_sym[of "locations s" i j]
    unfolding e set_nonzero_delaunay[OF del] by simp
  moreover have "length (net_dist_mat net) = length (locations s)"
    by (simp add: d norm_rows_def)
  moreover have "\<forall>i<length (locations s). length (net_dist_mat net ! i) = length (locations s)"
    by (simp add: d norm_rows_def)
  moreover have "\<forall>i<length (locations s). \<forall>j<length (locations s).
        net_dist_mat net ! i ! j = net_dist_mat net ! j ! i"
    by (simp add: d norm_rows_nth euclid_sym)
  moreover have "\<forall>i<length (locations s). net_dist_mat net ! i ! i = 0"
    by (simp add: d norm_rows_nth euclid_self)
  ultimately show ?thesis by blast
qed

subsection \<open>The \<open>distance\<close> prior\<close>



subsection \<open>The triangle: Delaunay mean against spanning-tree mean\<close>

lemma add_edges_succeeds:
  assumes "\<forall>e\<in>set es. fst e < length edges \<and> snd e < length edges"
  shows "\<exists>g'. add_edges edges es g = Inr g'"
  using assms by (induction es arbitrary: g) (simp_all add: Let_def)

lemma triangle_network:
  "\<exists>net. compute_network triangle_sites = Inr net \<and>
     net_edges net = [(0, 1), (0, 2), (1, 0), (1, 2), (2, 0), (2, 1)] \<and>
     net_dist_mat net = [[0, 3, 4], [3, 0, 5], [4, 5, 0]] \<and>
     net_locations net = [(0, 0), (3, 0), (0, 4)]"
proof -
  let ?E = "[(0, 1), (0, 2), (1, 0), (1, 2), (2, 0), (2, 1)] :: (nat \<times> nat) list"
  obtain g where g: "add_edges ?E ?E \<lparr>g_vertices = [0, 1, 2], g_edges = []\<rparr> = Inr g"
    using add_edges_succeeds[of ?E ?E] by auto
  show ?thesis
    using g
    by (simp add: compute_network_def triangle_sites_def tri_delaunay tri_nonzero tri_norm_rows
        del: add_edges.simps)
qed





text \<open>Claim C6 at the network of the triangle.\<close>

theorem compute_network_symmetric_witness:
  "\<exists>net. compute_network triangle_sites = Inr net \<and>
     net_dist_mat net ! 1 ! 2 = net_dist_mat net ! 2 ! 1 \<and> net_dist_mat net ! 1 ! 1 = 0 \<and>
     (1, 2) \<in> set (net_edges net) \<and> (2, 1) \<in> set (net_edges net)"
proof -
  from triangle_network obtain net where net: "compute_network triangle_sites = Inr net"
    and f: "net_edges net = [(0, 1), (0, 2), (1, 0), (1, 2), (2, 0), (2, 1)]"
    by blast
  have l: "length (locations triangle_sites) = 3" by (simp add: triangle_sites_def)
  have "(1, 2) \<in> set (net_edges net)" by (simp add: f)
  with compute_network_symmetric[OF net] l net show ?thesis by auto
qed

section \<open>Properties of the simulation harness\<close>

subsection \<open>Rows of \<open>np.random.dirichlet\<close>\<close>

lemma rng_take_length: "rng_take n r = (xs, r') \<Longrightarrow> length xs = n"
proof (induction n arbitrary: r xs r')
  case 0
  then show ?case by simp
next
  case (Suc n)
  obtain ys r2 where t: "rng_take n (snd (rng_next r)) = (ys, r2)"
    by (cases "rng_take n (snd (rng_next r))")
  from Suc.prems t have "xs = fst (rng_next r) # ys" by (simp split: prod.splits)
  with Suc.IH[OF t] show ?case by simp
qed

lemma rng_zero: "rng_next (\<lambda>_. 0) = (0, \<lambda>_. 0)"
  by (simp add: rng_next_def)

lemma rng_const: "rng_next (\<lambda>_. c) = (c, \<lambda>_. c)"
  by (simp add: rng_next_def)

lemma dirichlet_row_length:
  "dirichlet_row alpha_arr r = (row, r') \<Longrightarrow> length row = length alpha_arr"
  by (auto simp: dirichlet_row_def Let_def split: prod.splits dest: rng_take_length)

lemma dirichlet_rows_length:
  "dirichlet_rows alpha_arr n r = (rows, r') \<Longrightarrow>
     length rows = n \<and> (\<forall>row\<in>set rows. length row = length alpha_arr)"
proof (induction n arbitrary: r rows r')
  case 0
  then show ?case by simp
next
  case (Suc n)
  obtain row r1 where a: "dirichlet_row alpha_arr r = (row, r1)"
    by (cases "dirichlet_row alpha_arr r")
  obtain rest r2 where b: "dirichlet_rows alpha_arr n r1 = (rest, r2)"
    by (cases "dirichlet_rows alpha_arr n r1")
  from Suc.prems a b have rows: "rows = row # rest" by simp
  from dirichlet_row_length[OF a] Suc.IH[OF b] show ?case by (simp add: rows)
qed

text \<open>
  The part of claim C7 on the shape holds: \<open>simulate_weights\<close> returns one row for each
  feature, of 3 components with inheritance and of 2 without.
\<close>

lemma simulate_weights_shape:
  assumes "simulate_weights f_global f_contact f_inheritance inheritance n_features r =
             Inr (weights, r')"
  shows "length weights = nat n_features \<and>
         (\<forall>row\<in>set weights. length row = (if inheritance then 3 else 2))"
proof -
  define alpha_arr where "alpha_arr =
    map as_double (if inheritance then [f_global, f_contact, f_inheritance]
                   else [f_global, f_contact])"
  from assms have "dirichlet_rows alpha_arr (nat n_features) r = (weights, r')"
    by (simp add: simulate_weights_def np_random_dirichlet_def Let_def alpha_arr_def
        split: if_splits)
  from dirichlet_rows_length[OF this] show ?thesis by (simp add: alpha_arr_def)
qed

text \<open>A run with the concentrations 1.0, each gamma variate being 1.\<close>

lemma simulate_weights_regular_run:
  "simulate_weights unit_concentration unit_concentration unit_concentration False 1 (\<lambda>_. 1) =
     Inr ([[Num (Fin (1 / 2)), Num (Fin (1 / 2))]], \<lambda>_. 1) \<and>
   sums_to_one [Num (Fin (1 / 2)), Num (Fin (1 / 2))]"
  by (simp add: simulate_weights_def unit_concentration_def np_random_dirichlet_def
      dirichlet_row_def rng_const sums_to_one_def np_sum_def Let_def)

text \<open>
  Claim C7 says that every row of the array that \<open>simulate_weights\<close> returns sums to 1
  within 1e-9. It does not hold of the code: the call
  \<open>simulate_weights(2 ** -10, 2 ** -10, 1.0, False, 5)\<close>, at a state of the generator at
  which the gamma variates underflow to \<open>0.0\<close>, returns five rows \<open>[nan, nan]\<close>, and the sum
  of such a row is \<open>nan\<close>, not 1. (\<open>simulate_features\<close> asserts
  \<open>np.allclose(np.sum(weights, axis=-1), 1.)\<close> of the weights it is given.)
\<close>

theorem simulate_weights_nan_rows:
  "simulate_weights small_concentration small_concentration unit_concentration False 5 (\<lambda>_. 0) =
     Inr ([[NaN, NaN], [NaN, NaN], [NaN, NaN], [NaN, NaN], [NaN, NaN]], \<lambda>_. 0) \<and>
   np_sum [NaN, NaN] = NaN \<and> \<not> sums_to_one [NaN, NaN]"
  by (simp add: simulate_weights_def small_concentration_def np_random_dirichlet_def
      dirichlet_row_def rng_zero sums_to_one_def np_sum_def Let_def eval_nat_numeral)

subsection \<open>Families\<close>

lemma uniform01_range: "0 \<le> uniform01 x" "uniform01 x < 1"
  by (simp_all add: uniform01_def frac_lt_1)

lemma uniform_index:
  assumes "0 < n"
  shows "nat \<lfloor>uniform01 x * real n\<rfloor> < n"
proof -
  have "uniform01 x * real n < 1 * real n"
    using uniform01_range(2)[of x] assms by (intro mult_strict_right_mono) simp_all
  then have "\<lfloor>uniform01 x * real n\<rfloor> < int n" by (simp add: floor_less_iff)
  moreover have "0 \<le> \<lfloor>uniform01 x * real n\<rfloor>" using uniform01_range(1)[of x] by simp
  ultimately show ?thesis by linarith
qed

lemma pick_subset:
  assumes "pick k a r = (f, r')" "k \<le> length a"
  shows "set f \<subseteq> set a"
  using assms
proof (induction k arbitrary: a r f r')
  case 0
  then show ?case by simp
next
  case (Suc k)
  define i where "i = nat \<lfloor>uniform01 (fst (rng_next r)) * real (length a)\<rfloor>"
  have "0 < length a" using Suc.prems(2) by linarith
  then have i: "i < length a" unfolding i_def by (rule uniform_index)
  obtain rest r2 where p: "pick k (take i a @ drop (Suc i) a) (snd (rng_next r)) = (rest, r2)"
    by (cases "pick k (take i a @ drop (Suc i) a) (snd (rng_next r))")
  from Suc.prems(1) p have f: "f = a ! i # rest"
    by (simp add: i_def Let_def split: prod.splits)
  have "k \<le> length (take i a @ drop (Suc i) a)" using Suc.prems(2) i by simp
  from Suc.IH[OF p this] have "set rest \<subseteq> set a"
    using set_take_subset[of i a] set_drop_subset[of "Suc i" a] by auto
  with i show ?case by (simp add: f)
qed

lemma np_random_choice_subset:
  assumes "np_random_choice a sz r = Inr (f, r')"
  shows "set (members f) \<subseteq> set a"
proof (cases f)
  case (IntArray js)
  with assms have "pick (nat sz) a r = (js, r')" "nat sz \<le> length a"
    by (auto simp: np_random_choice_def split: if_splits prod.splits)
  then have "set js \<subseteq> set a" by (rule pick_subset)
  with IntArray show ?thesis by simp
next
  case FloatArray
  then show ?thesis by simp
qed

lemma draw_families_props:
  assumes "draw_families nf mn mx sites r = Inr (fs, r')"
  shows "length fs = nf \<and> (\<forall>f\<in>set fs. set (members f) \<subseteq> set sites) \<and>
         (\<forall>i<length fs. \<forall>j<length fs. i \<noteq> j \<longrightarrow>
            set (members (fs ! i)) \<inter> set (members (fs ! j)) = {})"
  using assms
proof (induction nf arbitrary: sites r fs r')
  case 0
  then show ?case by simp
next
  case (Suc nf)
  from Suc.prems obtain f_size r1 f r2 rest where
    c: "np_random_choice sites f_size r1 = Inr (f, r2)"
    and d: "draw_families nf mn mx (filter (\<lambda>s. s \<notin> set (members f)) sites) r2 = Inr (rest, r')"
    and fs: "fs = f # rest"
    by (auto split: sum.splits prod.splits)
  from np_random_choice_subset[OF c] have f: "set (members f) \<subseteq> set sites" .
  from Suc.IH[OF d] have len: "length rest = nf"
    and sub: "\<forall>g\<in>set rest.
        set (members g) \<subseteq> set (filter (\<lambda>s. s \<notin> set (members f)) sites)"
    and dis: "\<forall>i<length rest. \<forall>j<length rest. i \<noteq> j \<longrightarrow>
        set (members (rest ! i)) \<inter> set (members (rest ! j)) = {}"
    by simp_all
  have apart: "set (members f) \<inter> set (members g) = {}" if "g \<in> set rest" for g
    using sub that by auto
  have "set (members (fs ! i)) \<inter> set (members (fs ! j)) = {}"
    if "i < length fs" "j < length fs" "i \<noteq> j" for i j
  proof (cases i)
    case 0
    with that obtain j' where "j = Suc j'" "j' < length rest" by (cases j) (auto simp: fs)
    with 0 apart[of "rest ! j'"] show ?thesis by (simp add: fs)
  next
    case (Suc i')
    show ?thesis
    proof (cases j)
      case 0
      with Suc that apart[of "rest ! i'"] show ?thesis by (auto simp: fs)
    next
      case (Suc j')
      with \<open>i = Suc i'\<close> that dis show ?thesis by (simp add: fs)
    qed
  qed
  moreover have "\<forall>g\<in>set fs. set (members g) \<subseteq> set sites" using f sub by (auto simp: fs)
  ultimately show ?case using len by (simp add: fs)
qed

lemma set_columns_props:
  assumes "set_columns js row = Inr row'"
  shows "length row' = length row \<and> (\<forall>c<length row. row' ! c = (row ! c \<or> c \<in> set js))"
  using assms
proof (induction js arbitrary: row)
  case Nil
  then show ?case by simp
next
  case (Cons j js)
  from Cons.prems have j: "j < length row" and r: "set_columns js (row[j := True]) = Inr row'"
    by (auto split: if_splits)
  from Cons.IH[OF r] j show ?case by (auto simp: nth_list_update)
qed

lemma set_index_props:
  assumes "set_index z_id row = Inr row'"
  shows "length row' = length row \<and>
         (\<forall>c<length row. row' ! c = (row ! c \<or> c \<in> set (members z_id)))"
proof (cases z_id)
  case (IntArray js)
  with assms have "set_columns js row = Inr row'" by simp
  from set_columns_props[OF this] IntArray show ?thesis by simp
next
  case FloatArray
  with assms show ?thesis by simp
qed

lemma assign_membership_props:
  assumes "assign_membership fs n = Inr fam"
  shows "length fam = length fs \<and>
         (\<forall>k<length fs. length (fam ! k) = n \<and>
            (\<forall>c<n. fam ! k ! c = (c \<in> set (members (fs ! k)))))"
  using assms
proof (induction fs arbitrary: fam)
  case Nil
  then show ?case by simp
next
  case (Cons z_id rest)
  from Cons.prems obtain row rows where
    r: "set_index z_id (replicate n False) = Inr row"
    and a: "assign_membership rest n = Inr rows" and fam: "fam = row # rows"
    by (auto split: sum.splits)
  from set_index_props[OF r]
  have row: "length row = n" "\<forall>c<n. row ! c = (c \<in> set (members z_id))"
    by simp_all
  from Cons.IH[OF a] have rows: "length rows = length rest"
    "\<forall>k<length rest. length (rows ! k) = n \<and>
        (\<forall>c<n. rows ! k ! c = (c \<in> set (members (rest ! k))))"
    by simp_all
  have "length (fam ! k) = n \<and> (\<forall>c<n. fam ! k ! c = (c \<in> set (members ((z_id # rest) ! k))))"
    if "k < length (z_id # rest)" for k
    using that row rows by (cases k) (simp_all add: fam)
  then show ?case using rows(1) by (simp add: fam)
qed

text \<open>
  With no site left, a family of size 0 is an empty array of floats, and the assignment
  \<open>families[k, z_id] = 1\<close> raises \<open>IndexError\<close>.
\<close>

lemma simulate_families_no_sites:
  "simulate_families \<lparr>locations = [], cz = [], ids = [], names = None\<rparr> 1 1 0 (\<lambda>_. 0) =
     Inl IndexError"
  by (simp add: simulate_families_def np_random_randint_def np_random_choice_def rng_zero
      uniform01_def Let_def)

text \<open>
  Claim C9. When \<open>simulate_families\<close> succeeds, the matrix it returns has one row for
  each family and one column for each site, and no column holds \<open>True\<close> in two
  different rows: no site is assigned to more than one family.
\<close>

theorem simulate_families_disjoint:
  assumes "simulate_families s n_families max_family_size min_family_size r = Inr (families, r')"
  shows "length families = nat n_families \<and>
     (\<forall>k<length families. length (families ! k) = length (ids s)) \<and>
     (\<forall>k1<length families. \<forall>k2<length families. \<forall>c<length (ids s).
        k1 \<noteq> k2 \<longrightarrow> \<not> (families ! k1 ! c \<and> families ! k2 ! c))"
proof -
  from assms obtain fs where
    d: "draw_families (nat n_families) min_family_size max_family_size (ids s) r = Inr (fs, r')"
    and a: "assign_membership fs (length (ids s)) = Inr families"
    by (auto simp: simulate_families_def Let_def split: sum.splits prod.splits if_splits)
  from draw_families_props[OF d] have len: "length fs = nat n_families"
    and dis: "\<forall>i<length fs. \<forall>j<length fs. i \<noteq> j \<longrightarrow>
        set (members (fs ! i)) \<inter> set (members (fs ! j)) = {}"
    by simp_all
  from assign_membership_props[OF a] have fam: "length families = length fs"
    "\<forall>k<length fs. length (families ! k) = length (ids s) \<and>
        (\<forall>c<length (ids s). families ! k ! c = (c \<in> set (members (fs ! k))))"
    by simp_all
  have "\<not> (families ! k1 ! c \<and> families ! k2 ! c)"
    if "k1 < length families" "k2 < length families" "c < length (ids s)" "k1 \<noteq> k2" for k1 k2 c
  proof
    assume "families ! k1 ! c \<and> families ! k2 ! c"
    with fam that have "c \<in> set (members (fs ! k1)) \<inter> set (members (fs ! k2))" by simp
    with dis that fam(1) show False by auto
  qed
  with fam len show ?thesis by simp
qed

text \<open>Claim C9 for two families of one site each among the three sites of the triangle.\<close>

theorem simulate_families_disjoint_witness:
  "simulate_families triangle_sites 2 3 1 (\<lambda>_. 0) =
     Inr ([[True, False, False], [False, True, False]], \<lambda>_. 0) \<and>
   \<not> ([[True, False, False], [False, True, False]] ! 0 ! 0 \<and>
      [[True, False, False], [False, True, False]] ! 1 ! 0)"
proof -
  have e: "simulate_families triangle_sites 2 3 1 (\<lambda>_. 0) =
     Inr ([[True, False, False], [False, True, False]], \<lambda>_. 0)"
    by (simp add: simulate_families_def triangle_sites_def np_random_randint_def
        np_random_choice_def rng_zero uniform01_def eval_nat_numeral Let_def)
  from simulate_families_disjoint[OF e] e show ?thesis by simp
qed

subsection \<open>Categorical samples\<close>

lemma np_random_random_length:
  "np_random_random dims r = (z, r') \<Longrightarrow> length z = prod_list dims"
  by (auto simp: np_random_random_def split: prod.splits dest: rng_take_length)

lemma argmax_bool_less: "bs \<noteq> [] \<Longrightarrow> argmax_bool bs < length bs"
proof (cases "True \<in> set bs")
  case True
  then have "takeWhile Not bs \<noteq> bs" by auto
  then have "length (takeWhile Not bs) \<noteq> length bs"
    by (metis takeWhile_eq_take take_all_iff le_refl)
  with length_takeWhile_le[of Not bs] True show ?thesis by (simp add: argmax_bool_def)
next
  case False
  assume "bs \<noteq> []"
  with False show ?thesis by (simp add: argmax_bool_def)
qed

lemma rows_of_length:
  assumes "length xs = n_rows * n"
  shows "\<forall>row\<in>set (rows_of n_rows n xs). length row = n"
proof
  fix row assume "row \<in> set (rows_of n_rows n xs)"
  then obtain k where k: "k < n_rows" "row = take n (drop (k * n) xs)"
    by (auto simp: rows_of_def)
  have "Suc k * n \<le> n_rows * n" using k(1) by (intro mult_le_mono1) simp
  then have "n \<le> length xs - k * n" using assms by simp
  then show "length row = n" by (simp add: k(2))
qed

lemma prod_list_butlast: "xs \<noteq> [] \<Longrightarrow> prod_list xs = prod_list (butlast xs) * last (xs :: nat list)"
  by (induction xs) (simp_all add: mult.assoc)

text \<open>
  Claim C10. For an array \<open>p\<close> with at least one axis whose last axis has
  \<open>n_categories \<ge> 1\<close> entries (as it must for them to sum to 1), \<open>sample_categorical\<close>
  returns an array whose shape is the shape of \<open>p\<close> without its last axis, and every
  value it holds is an integer of \<open>[0, n_categories - 1]\<close>.
\<close>

theorem sample_categorical_range:
  assumes wf: "length (entries p) = prod_list (shape p)"
    and dims: "shape p \<noteq> []"
    and cats: "0 < last (shape p)"
  shows "\<exists>out r'. sample_categorical p r = Inr (out, r') \<and>
     shape out = butlast (shape p) \<and>
     length (entries out) = prod_list (shape out) \<and>
     (\<forall>v\<in>set (entries out). 0 \<le> v \<and> v \<le> int (last (shape p)) - 1)"
proof -
  define output_dims where "output_dims = butlast (shape p)"
  define n where "n = last (shape p)"
  define cdf where "cdf = map cumsum (rows_of (prod_list output_dims) n (entries p))"
  obtain z r' where z: "np_random_random output_dims r = (z, r')"
    by (cases "np_random_random output_dims r")
  define vals where "vals = map2 (\<lambda>zk row. int (argmax_bool (map (\<lambda>c. zk < c) row))) z cdf"
  have res: "sample_categorical p r = Inr (\<lparr>shape = output_dims, entries = vals\<rparr>, r')"
    using dims cats z
    by (simp add: sample_categorical_def Let_def output_dims_def[symmetric] n_def[symmetric]
        cdf_def[symmetric] vals_def)
  have lz: "length z = prod_list output_dims" using z by (rule np_random_random_length)
  have lc: "length cdf = prod_list output_dims" by (simp add: cdf_def rows_of_def)
  have "length (entries p) = prod_list output_dims * n"
    using wf dims by (simp add: prod_list_butlast output_dims_def n_def)
  from rows_of_length[OF this] have rows: "\<forall>row\<in>set cdf. length row = n"
    by (auto simp: cdf_def cumsum_def)
  have "0 \<le> v \<and> v \<le> int n - 1" if "v \<in> set vals" for v
  proof -
    from that obtain zk row where "row \<in> set cdf"
      and v: "v = int (argmax_bool (map (\<lambda>c. zk < c) row))"
      by (auto simp: vals_def dest: set_zip_rightD)
    with rows have "length row = n" by simp
    with cats have "map (\<lambda>c. zk < c) row \<noteq> []" by (auto simp: n_def)
    from argmax_bool_less[OF this] \<open>length row = n\<close> show ?thesis by (simp add: v)
  qed
  moreover have "length vals = prod_list output_dims" by (simp add: vals_def lz lc)
  ultimately show ?thesis using res by (simp add: n_def output_dims_def)
qed

subsection \<open>Concrete runs\<close>

lemma frac_three_fifths: "frac (3 / 5 :: real) = 3 / 5"
  by (simp add: frac_eq)

text \<open>Claim C10 on two rows of two categories, each uniform number being 3/5.\<close>

theorem sample_categorical_range_witness:
  "length (entries example_probabilities) = prod_list (shape example_probabilities) \<and>
   shape example_probabilities \<noteq> [] \<and> 0 < last (shape example_probabilities) \<and>
   sample_categorical example_probabilities (\<lambda>_. 3 / 5) =
     Inr (\<lparr>shape = [2], entries = [1, 1]\<rparr>, \<lambda>_. 3 / 5)"
proof -
  have e: "sample_categorical example_probabilities (\<lambda>_. 3 / 5) =
     Inr (\<lparr>shape = [2], entries = [1, 1]\<rparr>, \<lambda>_. 3 / 5)"
    by (simp add: sample_categorical_def example_probabilities_def np_random_random_def
        rng_const uniform01_def frac_three_fifths rows_of_def cumsum_def argmax_bool_def
        eval_nat_numeral Let_def)
  have h: "length (entries example_probabilities) = prod_list (shape example_probabilities)"
    "shape example_probabilities \<noteq> []" "0 < last (shape example_probabilities)"
    by (simp_all add: example_probabilities_def)
  from sample_categorical_range[OF h, of "\<lambda>_. 3 / 5"] e h show ?thesis by simp
qed

subsection \<open>Assignment probabilities\<close>

lemma choice_two_categories:
  "np_random_choice_p [2] 1 [1] (\<lambda>_. c) = Inr ([2], \<lambda>_. c)"
proof -
  have "\<not> 1 \<le> frac c" using frac_lt_1[of c] by simp
  then show ?thesis
    by (simp add: np_random_choice_p_def np_random_random_def rng_const uniform01_def
        cumsum_def searchsorted_right_def)
qed

text \<open>
  Claim C8 says that every row that \<open>simulate_assignment_probabilities\<close> returns sums
  to 1 over the categories of its feature. It does not hold of the code, for the reason
  claim C7 does not. For one feature of two categories and one zone, with the
  intensities \<open>2 ** -10\<close>, at a state of the generator at which the gamma variates
  underflow to \<open>0.0\<close>, the global row and the row of the zone are \<open>[nan, nan]\<close>. And with
  inheritance, one family and the intensity of inheritance left at its default \<open>None\<close>
  (the other intensities 1.0, each variate 1), the call returns rows \<open>[0.5, 0.5]\<close> for
  the feature globally and in the zone, and the row \<open>[nan, nan]\<close> in the family. A row
  \<open>[nan, nan]\<close> does not sum to 1.
\<close>

theorem assignment_probabilities_nan_rows:
  "simulate_assignment_probabilities 1 [(2, 1)] False [[True]]
       small_concentration small_concentration None None (\<lambda>_. 0) =
     Inr (([[NaN, NaN]], [[[NaN, NaN]]], None), \<lambda>_. 0) \<and>
   simulate_assignment_probabilities 1 [(2, 1)] True [[True]]
       unit_concentration unit_concentration None (Some [[True]]) (\<lambda>_. 1) =
     Inr (([[Num (Fin (1 / 2)), Num (Fin (1 / 2))]],
           [[[Num (Fin (1 / 2)), Num (Fin (1 / 2))]]],
           Some [[[NaN, NaN]]]), \<lambda>_. 1) \<and>
   valid_row 2 [Num (Fin (1 / 2)), Num (Fin (1 / 2))] \<and>
   \<not> valid_row 2 [NaN, NaN]"
  by (simp add: simulate_assignment_probabilities_def choice_two_categories Let_def
      zeros2_def zeros3_def small_concentration_def unit_concentration_def
      np_random_dirichlet_def dirichlet_row_def rng_const set_leading_def valid_row_def
      sums_to_one_def np_sum_def eval_nat_numeral upt_rec)

end
